theory Spec2Isabelle
  imports Complex_Main "HOL-Library.Multiset" "HOL-Library.Char_ord"
    "HOL-Library.List_Lexorder" "HOL-Library.Product_Lexorder"
begin

section \<open>Values of the JavaScript program\<close>

text \<open>
  The backend (\<^verbatim>\<open>src/backend/handler.ts\<close>) works on values produced by
  \<^verbatim>\<open>JSON.parse\<close>. A JavaScript number is a double: a finite value is kept as the rational it
  denotes, next to the three non-finite values. An object is the list of its own entries in
  enumeration order, a string a list of bytes (UTF-8).
\<close>

datatype jsnum = NaN | PosInf | NegInf | Fin rat

datatype json =
    JNull
  | JBool bool
  | JNum jsnum
  | JStr string
  | JArr "json list"
  | JObj "(string \<times> json) list"

text \<open>Own-property read \<^verbatim>\<open>value[key]\<close>; \<open>None\<close> is \<^verbatim>\<open>undefined\<close>. The keys the program
  reads (\<^verbatim>\<open>edges\<close>, \<^verbatim>\<open>vertices\<close>, \<^verbatim>\<open>from\<close>, ...) are no array index and no
  prototype property, so only a plain object can answer.\<close>

fun get_prop :: "json \<Rightarrow> string \<Rightarrow> json option" where
  "get_prop (JObj es) k = map_of es k"
| "get_prop _ k = None"

text \<open>Property write \<^verbatim>\<open>obj[key] = value\<close>: an existing key keeps its place, a new key goes
  last.\<close>

fun obj_set :: "(string \<times> 'v) list \<Rightarrow> string \<Rightarrow> 'v \<Rightarrow> (string \<times> 'v) list" where
  "obj_set [] k v = [(k, v)]"
| "obj_set ((k', v') # es) k v = (if k' = k then (k, v) # es else (k', v') # obj_set es k v)"

text \<open>\<^verbatim>\<open>parts.join(sep)\<close> on an array of strings.\<close>

fun join :: "string \<Rightarrow> string list \<Rightarrow> string" where
  "join sep [] = []"
| "join sep [x] = x"
| "join sep (x # y # ys) = x @ sep @ join sep (y # ys)"

text \<open>Decimal digits of a natural number, as template literals print an index or a step.\<close>

fun show_nat :: "nat \<Rightarrow> string" where
  "show_nat n = (if n < 10 then [char_of (48 + n)] else show_nat (n div 10) @ [char_of (48 + n mod 10)])"

declare show_nat.simps [simp del]

subsection \<open>What the host supplies\<close>

text \<open>
  The functions below belong to the JavaScript host (the engine, ICU, the URL parser, the
  JSON parser), not to the repository. They are fields of a record that every definition
  takes as its first argument; a theorem holds for every host unless it states what it needs
  of one.
\<close>

record host =
  localeCompare :: "string \<Rightarrow> string \<Rightarrow> int"
  toNumber :: "json \<Rightarrow> jsnum"
  numberToString :: "jsnum \<Rightarrow> string"
  trimLower :: "string \<Rightarrow> string"
  urlPathname :: "string \<Rightarrow> string option"
  jsonParse :: "string \<Rightarrow> json option"

text \<open>\<^verbatim>\<open>Array.prototype.sort(compare)\<close> is stable; for a consistent comparator the result is
  the one of a stable insertion sort.\<close>

fun insert_by :: "('a \<Rightarrow> 'a \<Rightarrow> int) \<Rightarrow> 'a \<Rightarrow> 'a list \<Rightarrow> 'a list" where
  "insert_by c x [] = [x]"
| "insert_by c x (y # ys) = (if c x y \<le> 0 then x # y # ys else y # insert_by c x ys)"

definition sort_by :: "('a \<Rightarrow> 'a \<Rightarrow> int) \<Rightarrow> 'a list \<Rightarrow> 'a list" where
  "sort_by c xs = foldr (insert_by c) xs []"

lemma set_insert_by: "set (insert_by c x ys) = insert x (set ys)"
  by (induction ys) auto

lemma set_sort_by: "set (sort_by c xs) = set xs"
  by (induction xs) (auto simp: sort_by_def set_insert_by)

section \<open>Canonical encoder and fingerprint\<close>

text \<open>\<^verbatim>\<open>JSON.stringify\<close> of a string: quotes, with the escapes of ECMA-262 QuoteJSONString.\<close>

definition hex_digit :: "nat \<Rightarrow> char" where
  "hex_digit n = (if n < 10 then char_of (48 + n) else char_of (87 + n))"

definition quote_char :: "char \<Rightarrow> string" where
  "quote_char c =
     (if c = CHR 0x22 then [CHR 0x5C, CHR 0x22]
      else if c = CHR 0x5C then [CHR 0x5C, CHR 0x5C]
      else if c = CHR 0x08 then [CHR 0x5C, CHR ''b'']
      else if c = CHR 0x0C then [CHR 0x5C, CHR ''f'']
      else if c = CHR 0x0A then [CHR 0x5C, CHR ''n'']
      else if c = CHR 0x0D then [CHR 0x5C, CHR ''r'']
      else if c = CHR 0x09 then [CHR 0x5C, CHR ''t'']
      else if (of_char c :: nat) < 32
        then [CHR 0x5C, CHR ''u'', CHR ''0'', CHR ''0'',
              hex_digit (of_char c div 16), hex_digit (of_char c mod 16)]
      else [c])"

definition quote :: "string \<Rightarrow> string" where
  "quote s = [CHR 0x22] @ concat (map quote_char s) @ [CHR 0x22]"

text \<open>\<^verbatim>\<open>JSON.stringify\<close> of a number: a non-finite number prints as \<^verbatim>\<open>null\<close>.\<close>

definition stringify_number :: "host \<Rightarrow> jsnum \<Rightarrow> string" where
  "stringify_number h n = (case n of Fin r \<Rightarrow> numberToString h n | _ \<Rightarrow> ''null'')"

text \<open>The comparator handed to \<^verbatim>\<open>sort\<close>: \<^verbatim>\<open>([keyA], [keyB]) => keyA.localeCompare(keyB)\<close>.\<close>

definition entry_cmp :: "host \<Rightarrow> string \<times> 'v \<Rightarrow> string \<times> 'v \<Rightarrow> int" where
  "entry_cmp h a b = localeCompare h (fst a) (fst b)"

function stableStringify :: "host \<Rightarrow> json \<Rightarrow> string" where
  "stableStringify h JNull = ''null''"
| "stableStringify h (JBool b) = (if b then ''true'' else ''false'')"
| "stableStringify h (JNum n) = stringify_number h n"
| "stableStringify h (JStr s) = quote s"
| "stableStringify h (JArr vs) = ''['' @ join '','' (map (stableStringify h) vs) @ '']''"
| "stableStringify h (JObj es) =
     ''{'' @ join '','' (map (\<lambda>e. quote (fst e) @ '':'' @ stableStringify h (snd e))
                            (sort_by (entry_cmp h) es)) @ ''}''"
  by pat_completeness auto

lemma size_entry_less: "e \<in> set es \<Longrightarrow> size (snd e) < Suc (size_list (size_prod (\<lambda>_. 0) size) es)"
  by (induction es) (auto simp: less_Suc_eq_le)

termination stableStringify
  by (relation "measure (\<lambda>(h, v). size v)")
     (auto simp: set_sort_by less_Suc_eq_le size_list_estimation' dest: size_entry_less)

text \<open>\<^verbatim>\<open>createHash('sha256').update(s).digest('hex')\<close> is kept symbolic: \<open>Sha256 s\<close> is the
  digest of \<open>s\<close>. Equal messages have equal digests; nothing below relies on more.\<close>

datatype digest = Sha256 string

text \<open>\<^verbatim>\<open>JSON.stringify({ algorithmId, input, options })\<close>, three string fields.\<close>

definition payload_json :: "string \<Rightarrow> string \<Rightarrow> string \<Rightarrow> string" where
  "payload_json algorithmId input options =
     ''{'' @ quote ''algorithmId'' @ '':'' @ quote algorithmId @ '','' @
     quote ''input'' @ '':'' @ quote input @ '','' @
     quote ''options'' @ '':'' @ quote options @ ''}''"

definition createCacheKey :: "host \<Rightarrow> string \<Rightarrow> json \<Rightarrow> json \<Rightarrow> digest" where
  "createCacheKey h algorithmId input options =
     Sha256 (payload_json algorithmId (stableStringify h input) (stableStringify h options))"

section \<open>Errors\<close>

text \<open>What a \<^verbatim>\<open>throw\<close> can carry: a \<^verbatim>\<open>ClientError\<close>, any other \<^verbatim>\<open>Error\<close> with its message,
  or a value that is no \<^verbatim>\<open>Error\<close> at all.\<close>

datatype thrown = ClientError string | Error string | NotAnError

section \<open>Option validation\<close>

datatype option_type = TInteger | TNumber | TString | TBoolean

record AlgorithmOptionDefinition =
  key :: string
  label :: string
  otype :: option_type
  description :: string
  defaultValue :: json
  minimum :: "rat option"
  maximum :: "rat option"

text \<open>\<^verbatim>\<open>String(value)\<close>; an array joins its elements with commas, \<^verbatim>\<open>null\<close> elements as
  empty strings.\<close>

fun js_String :: "host \<Rightarrow> json \<Rightarrow> string" where
  "js_String h JNull = ''null''"
| "js_String h (JBool b) = (if b then ''true'' else ''false'')"
| "js_String h (JNum n) = numberToString h n"
| "js_String h (JStr s) = s"
| "js_String h (JArr vs) = join '','' (map (\<lambda>v. if v = JNull then [] else js_String h v) vs)"
| "js_String h (JObj es) = ''[object Object]''"

definition isInteger :: "jsnum \<Rightarrow> bool" where
  "isInteger n = (case n of Fin r \<Rightarrow> of_int \<lfloor>r\<rfloor> = r | _ \<Rightarrow> False)"

definition isFinite :: "jsnum \<Rightarrow> bool" where
  "isFinite n = (case n of Fin r \<Rightarrow> True | _ \<Rightarrow> False)"

text \<open>The range checks shared by the \<^verbatim>\<open>integer\<close> and \<^verbatim>\<open>number\<close> cases; \<open>r\<close> is finite.\<close>

definition check_range :: "host \<Rightarrow> AlgorithmOptionDefinition \<Rightarrow> rat \<Rightarrow> thrown + json" where
  "check_range h d r =
     (case minimum d of
        Some m \<Rightarrow> if r < m
          then Inl (ClientError (''Option \"'' @ label d @ ''\" must be >= '' @ numberToString h (Fin m) @ ''.''))
          else (case maximum d of
                  Some M \<Rightarrow> if M < r
                    then Inl (ClientError (''Option \"'' @ label d @ ''\" must be <= '' @ numberToString h (Fin M) @ ''.''))
                    else Inr (JNum (Fin r))
                | None \<Rightarrow> Inr (JNum (Fin r)))
      | None \<Rightarrow>
          (case maximum d of
             Some M \<Rightarrow> if M < r
               then Inl (ClientError (''Option \"'' @ label d @ ''\" must be <= '' @ numberToString h (Fin M) @ ''.''))
               else Inr (JNum (Fin r))
           | None \<Rightarrow> Inr (JNum (Fin r))))"

text \<open>One turn of the loop of \<^verbatim>\<open>parseOptions\<close> for a supplied value that is neither
  \<^verbatim>\<open>undefined\<close>, \<^verbatim>\<open>null\<close> nor the empty string.\<close>

definition parse_supplied :: "host \<Rightarrow> AlgorithmOptionDefinition \<Rightarrow> json \<Rightarrow> thrown + json" where
  "parse_supplied h d v =
     (case otype d of
        TInteger \<Rightarrow>
          (case toNumber h v of
             Fin r \<Rightarrow> if isInteger (Fin r) then check_range h d r
                      else Inl (ClientError (''Option \"'' @ label d @ ''\" must be an integer value.''))
           | _ \<Rightarrow> Inl (ClientError (''Option \"'' @ label d @ ''\" must be an integer value.'')))
      | TNumber \<Rightarrow>
          (case toNumber h v of
             Fin r \<Rightarrow> check_range h d r
           | _ \<Rightarrow> Inl (ClientError (''Option \"'' @ label d @ ''\" must be a numeric value.'')))
      | TBoolean \<Rightarrow>
          (case v of
             JBool b \<Rightarrow> Inr (JBool b)
           | JStr s \<Rightarrow>
               (let normalized = trimLower h s in
                if normalized = ''true'' \<or> normalized = ''1'' then Inr (JBool True)
                else if normalized = ''false'' \<or> normalized = ''0'' then Inr (JBool False)
                else Inl (ClientError (''Option \"'' @ label d @ ''\" must be a boolean.'')))
           | JNum n \<Rightarrow> Inr (JBool (n \<noteq> Fin 0))
           | _ \<Rightarrow> Inl (ClientError (''Option \"'' @ label d @ ''\" must be a boolean.'')))
      | TString \<Rightarrow> Inr (JStr (js_String h v)))"

text \<open>\<^verbatim>\<open>parseOptions\<close>: the loop over the definitions, \<open>parsed\<close> being the object built so
  far. A \<^verbatim>\<open>raw\<close> that is no object counts as \<^verbatim>\<open>{}\<close>, which \<open>get_prop\<close> answers alike.\<close>

fun parseOptions_loop ::
  "host \<Rightarrow> json \<Rightarrow> AlgorithmOptionDefinition list \<Rightarrow> (string \<times> json) list \<Rightarrow>
   thrown + (string \<times> json) list" where
  "parseOptions_loop h provided [] parsed = Inr parsed"
| "parseOptions_loop h provided (d # ds) parsed =
     (let value = get_prop provided (key d) in
      if value = None \<or> value = Some JNull \<or> value = Some (JStr [])
      then parseOptions_loop h provided ds (obj_set parsed (key d) (defaultValue d))
      else (case parse_supplied h d (the value) of
              Inl e \<Rightarrow> Inl e
            | Inr v \<Rightarrow> parseOptions_loop h provided ds (obj_set parsed (key d) v)))"

definition parseOptions ::
  "host \<Rightarrow> AlgorithmOptionDefinition list \<Rightarrow> json \<Rightarrow> thrown + (string \<times> json) list" where
  "parseOptions h defs raw = parseOptions_loop h raw defs []"

section \<open>The minimum-cut algorithm\<close>

record KargerInput =
  vertices :: "string list"
  edges :: "(string \<times> string) list"

definition optionDefinitions :: "AlgorithmOptionDefinition list" where
  "optionDefinitions =
     [\<lparr> key = ''iterations'', label = ''Iterations'', otype = TInteger,
        description = ''Number of random contraction runs to perform. More iterations increase the probability of finding the true minimum cut.'',
        defaultValue = JNum (Fin 40), minimum = Some 1, maximum = Some 1000 \<rparr>]"

subsection \<open>Input parsing\<close>

text \<open>\<^verbatim>\<open>typeof v === 'object'\<close> for a truthy \<open>v\<close>: an array or a plain object.\<close>

fun is_object :: "json \<Rightarrow> bool" where
  "is_object (JArr vs) = True"
| "is_object (JObj es) = True"
| "is_object _ = False"

text \<open>\<^verbatim>\<open>a ?? b\<close>, with \<open>None\<close> for \<^verbatim>\<open>undefined\<close>.\<close>

definition nullish :: "json option \<Rightarrow> json option \<Rightarrow> json option" where
  "nullish a b = (if a = None \<or> a = Some JNull then b else a)"

text \<open>The callback of \<^verbatim>\<open>rawEdges.map\<close>; \<open>None\<close> is the path that reaches the \<^verbatim>\<open>throw\<close>.\<close>

definition destructure :: "host \<Rightarrow> json \<Rightarrow> (string \<times> string) option" where
  "destructure h edge =
     (case edge of
        JArr [from, to] \<Rightarrow> Some (js_String h from, js_String h to)
      | _ \<Rightarrow>
          if is_object edge then
            (let from = nullish (get_prop edge ''from'') (nullish (get_prop edge ''source'') (get_prop edge ''u''));
                 to = nullish (get_prop edge ''to'') (nullish (get_prop edge ''target'') (get_prop edge ''v''))
             in if from \<noteq> None \<and> to \<noteq> None
                then Some (js_String h (the from), js_String h (the to)) else None)
          else None)"

fun map_edges :: "host \<Rightarrow> nat \<Rightarrow> json list \<Rightarrow> thrown + (string \<times> string) list" where
  "map_edges h index [] = Inr []"
| "map_edges h index (edge # rest) =
     (case destructure h edge of
        None \<Rightarrow> Inl (ClientError (''Edge at index '' @ show_nat index @
                 '' must be an array like [from, to] or an object with from/to keys.''))
      | Some e \<Rightarrow> (case map_edges h (Suc index) rest of Inl err \<Rightarrow> Inl err | Inr es \<Rightarrow> Inr (e # es)))"

text \<open>\<^verbatim>\<open>new Set(xs)\<close> read back with \<^verbatim>\<open>Array.from\<close>: first occurrences, in order.\<close>

definition set_add :: "'a list \<Rightarrow> 'a \<Rightarrow> 'a list" where
  "set_add s x = (if x \<in> set s then s else s @ [x])"

definition new_Set :: "'a list \<Rightarrow> 'a list" where
  "new_Set xs = foldl set_add [] xs"

definition parseInput :: "host \<Rightarrow> json \<Rightarrow> thrown + KargerInput" where
  "parseInput h raw =
     (if \<not> is_object raw
      then Inl (ClientError ''Input must be a JSON object with an \"edges\" property.'')
      else (case get_prop raw ''edges'' of
              Some (JArr rawEdges) \<Rightarrow>
                if rawEdges = [] then Inl (ClientError ''Input must include a non-empty \"edges\" array.'')
                else (case map_edges h 0 rawEdges of
                        Inl err \<Rightarrow> Inl err
                      | Inr es \<Rightarrow>
                          (let explicitVertices =
                                 (case get_prop raw ''vertices'' of
                                    Some (JArr vs) \<Rightarrow> map (js_String h) vs | _ \<Rightarrow> []);
                               vs = new_Set (explicitVertices @ concat (map (\<lambda>(from, to). [from, to]) es))
                           in if length vs < 2
                              then Inl (ClientError ''The graph must contain at least two vertices.'')
                              else Inr \<lparr> vertices = vs, edges = es \<rparr>))
            | _ \<Rightarrow> Inl (ClientError ''Input must include a non-empty \"edges\" array.'')))"

subsection \<open>Iteration count\<close>

definition resolveIterations :: "KargerInput \<Rightarrow> (string \<times> json) list \<Rightarrow> nat" where
  "resolveIterations input options =
     (case map_of options ''iterations'' of
        Some (JNum (Fin r)) \<Rightarrow>
          if isInteger (Fin r) \<and> 1 \<le> r then nat \<lfloor>r\<rfloor>
          else max 1 (min 1000 (length (vertices input) * length (vertices input)))
      | _ \<Rightarrow> max 1 (min 1000 (length (vertices input) * length (vertices input))))"

subsection \<open>One contraction run\<close>

text \<open>\<^verbatim>\<open>Map<string, Set<string>>\<close>: entries in insertion order; \<^verbatim>\<open>set\<close> is \<open>obj_set\<close>.\<close>

type_synonym components = "(string \<times> string list) list"

definition map_delete :: "string \<Rightarrow> components \<Rightarrow> components" where
  "map_delete k m = filter (\<lambda>e. fst e \<noteq> k) m"

definition findRepresentative :: "string \<Rightarrow> components \<Rightarrow> thrown + string" where
  "findRepresentative l m =
     (if map_of m l \<noteq> None then Inr l
      else (case find (\<lambda>e. l \<in> set (snd e)) m of
              Some e \<Rightarrow> Inr (fst e)
            | None \<Rightarrow> Inl (Error (''Vertex '' @ l @ '' is missing from the component map.''))))"

text \<open>
  \<^verbatim>\<open>Array.prototype.sort()\<close> without a comparator orders strings by their UTF-16 code units.
  A name is kept as UTF-8 bytes: \<open>code_points\<close> decodes them, \<open>utf16_units\<close> gives the code
  units \<^verbatim>\<open>sort\<close> compares (a code point from U+10000 on is a surrogate pair), and the sort is
  the stable sort by that key.
\<close>

definition sequence_length :: "char \<Rightarrow> nat" where
  "sequence_length c =
     (if 240 \<le> (of_char c :: int) then 4 else if 224 \<le> (of_char c :: int) then 3
      else if 192 \<le> (of_char c :: int) then 2 else 1)"

definition lead_bits :: "char \<Rightarrow> int" where
  "lead_bits c =
     (if 240 \<le> (of_char c :: int) then of_char c mod 8 else if 224 \<le> (of_char c :: int) then of_char c mod 16
      else if 192 \<le> (of_char c :: int) then of_char c mod 32 else of_char c)"

definition decode :: "string \<Rightarrow> int" where
  "decode bs = (case bs of [] \<Rightarrow> 0 | c # cs \<Rightarrow> foldl (\<lambda>cp b. cp * 64 + of_char b mod 64) (lead_bits c) cs)"

fun code_points :: "string \<Rightarrow> int list" where
  "code_points [] = []"
| "code_points (c # cs) =
     decode (c # take (sequence_length c - 1) cs) # code_points (drop (sequence_length c - 1) cs)"

definition code_units :: "int \<Rightarrow> int list" where
  "code_units cp =
     (if cp < 65536 then [cp] else [55296 + (cp - 65536) div 1024, 56320 + (cp - 65536) mod 1024])"

definition utf16_units :: "string \<Rightarrow> int list" where
  "utf16_units s = concat (map code_units (code_points s))"

definition mergeComponents ::
  "string \<Rightarrow> string \<Rightarrow> components \<Rightarrow> nat \<Rightarrow> thrown + string \<times> components" where
  "mergeComponents from to m step =
     (case map_of m from of
        None \<Rightarrow> Inl (Error ''Attempted to merge components that do not exist.'')
      | Some fromSet \<Rightarrow>
          (case map_of m to of
             None \<Rightarrow> Inl (Error ''Attempted to merge components that do not exist.'')
           | Some toSet \<Rightarrow>
               (let mergedSet = new_Set (fromSet @ toSet);
                    mergedLabel = join ''|'' (sort_key utf16_units mergedSet) @ ''#'' @ show_nat step
                in Inr (mergedLabel, obj_set (map_delete to (map_delete from m)) mergedLabel mergedSet))))"

text \<open>The rewrite of the working edge list after a merge.\<close>

definition relabel :: "string \<Rightarrow> string \<Rightarrow> string \<Rightarrow> (string \<times> string) list \<Rightarrow> (string \<times> string) list" where
  "relabel from to mergedLabel es =
     filter (\<lambda>e. fst e \<noteq> snd e)
       (map (\<lambda>e. (if fst e = from \<or> fst e = to then mergedLabel else fst e,
                  if snd e = from \<or> snd e = to then mergedLabel else snd e)) es)"

text \<open>\<^verbatim>\<open>edges.splice(i, 1)\<close>.\<close>

definition splice1 :: "nat \<Rightarrow> 'a list \<Rightarrow> 'a list" where
  "splice1 i xs = take i xs @ drop (Suc i) xs"

lemma length_obj_set: "length (obj_set m k v) \<le> Suc (length m)"
  by (induction m) auto

lemma length_map_delete: "map_of m k = Some v \<Longrightarrow> length (map_delete k m) < length m"
proof (induction m)
  case Nil
  then show ?case by simp
next
  case (Cons e m)
  have "length (filter (\<lambda>e. fst e \<noteq> k) m) \<le> length m" by simp
  with Cons show ?case by (cases e) (auto simp: map_delete_def less_Suc_eq_le split: if_splits)
qed

lemma map_of_map_delete: "k \<noteq> k' \<Longrightarrow> map_of (map_delete k' m) k = map_of m k"
  by (induction m) (auto simp: map_delete_def)

lemma mergeComponents_shrinks:
  assumes "mergeComponents from to m step = Inr (l, m')" and "from \<noteq> to"
  shows "length m' < length m"
proof -
  from assms(1) obtain fromSet toSet where f: "map_of m from = Some fromSet"
    and t: "map_of m to = Some toSet"
    and m': "m' = obj_set (map_delete to (map_delete from m)) l (new_Set (fromSet @ toSet))"
    by (auto simp: mergeComponents_def Let_def split: option.splits)
  from f have 1: "length (map_delete from m) < length m" by (rule length_map_delete)
  from t assms(2) have "map_of (map_delete from m) to = Some toSet"
    by (simp add: map_of_map_delete)
  then have 2: "length (map_delete to (map_delete from m)) < length (map_delete from m)"
    by (rule length_map_delete)
  from 1 2 length_obj_set [of "map_delete to (map_delete from m)" l "new_Set (fromSet @ toSet)"]
  show ?thesis unfolding m' by linarith
qed

lemma length_relabel: "length (relabel from to l es) \<le> length es"
  by (simp add: relabel_def le_trans [OF length_filter_le])

lemma length_splice1: "i < length xs \<Longrightarrow> length (splice1 i xs) < length xs"
  by (simp add: splice1_def)

text \<open>
  The \<^verbatim>\<open>while\<close> loop of \<^verbatim>\<open>singleRun\<close>. \<open>rnd k\<close> stands for the draw of \<^verbatim>\<open>Math.random\<close> in the
  \<open>k\<close>-th turn: \<^verbatim>\<open>Math.floor(Math.random() * edges.length)\<close> is an index below the
  length, and every such index is \<open>rnd k mod length es\<close> for some \<open>rnd\<close>. The result is
  the working edge list and the component map the loop ends with, or what was thrown.
\<close>

function contract ::
  "(nat \<Rightarrow> nat) \<Rightarrow> nat \<Rightarrow> (string \<times> string) list \<Rightarrow> components \<Rightarrow>
   thrown + (string \<times> string) list \<times> components" where
  "contract rnd step es m =
     (if 2 < length m \<and> es \<noteq> [] then
        (case findRepresentative (fst (es ! (rnd (Suc step) mod length es))) m of
           Inl err \<Rightarrow> Inl err
         | Inr from \<Rightarrow>
             (case findRepresentative (snd (es ! (rnd (Suc step) mod length es))) m of
                Inl err \<Rightarrow> Inl err
              | Inr to \<Rightarrow>
                  if from = to then contract rnd (Suc step) (splice1 (rnd (Suc step) mod length es) es) m
                  else (case mergeComponents from to m (Suc step) of
                          Inl err \<Rightarrow> Inl err
                        | Inr lm \<Rightarrow> contract rnd (Suc step) (relabel from to (fst lm) es) (snd lm))))
      else Inr (es, m))"
  by pat_completeness auto

termination contract
proof (relation "measure (\<lambda>(rnd, step, es, m). length m + length es)", goal_cases)
  case 1
  show ?case by simp
next
  case (2 rnd step es m a b)
  then show ?case by (simp add: length_splice1)
next
  case (3 rnd step es m a b lm)
  then have "length (snd lm) < length m"
    using mergeComponents_shrinks [of a b m "Suc step" "fst lm" "snd lm"] by simp
  with length_relabel [of a b "fst lm" es] show ?case by simp
qed

declare contract.simps [simp del]

text \<open>The draws that pick the same number in every turn.\<close>

definition always :: "nat \<Rightarrow> nat \<Rightarrow> nat" where
  "always i k = i"

definition computeCutSize :: "string list \<Rightarrow> string list \<Rightarrow> (string \<times> string) list \<Rightarrow> nat" where
  "computeCutSize partA partB es =
     fold (\<lambda>e cut. if (fst e \<in> set partA \<and> snd e \<in> set partB) \<or> (fst e \<in> set partB \<and> snd e \<in> set partA)
                     then cut + 1 else cut) es 0"

record RunResult =
  cut :: nat
  partitions :: "string list \<times> string list"

definition initial_components :: "string list \<Rightarrow> components" where
  "initial_components vs = fold (\<lambda>v m. obj_set m v [v]) vs []"

definition finish :: "KargerInput \<Rightarrow> components \<Rightarrow> RunResult" where
  "finish input m =
     (let remaining = map snd m in
      if length remaining \<noteq> 2 then
        (if length remaining = 1 then \<lparr> cut = 0, partitions = (remaining ! 0, []) \<rparr>
         else \<lparr> cut = 0, partitions = (concat remaining, []) \<rparr>)
      else \<lparr> cut = computeCutSize (remaining ! 0) (remaining ! 1) (edges input),
             partitions = (remaining ! 0, remaining ! 1) \<rparr>)"

definition singleRun :: "(nat \<Rightarrow> nat) \<Rightarrow> KargerInput \<Rightarrow> thrown + RunResult" where
  "singleRun rnd input =
     (case contract rnd 0 (edges input) (initial_components (vertices input)) of
        Inl err \<Rightarrow> Inl err
      | Inr final \<Rightarrow> Inr (finish input (snd final)))"

subsection \<open>All iterations\<close>

record AlgorithmRunResult =
  outputValue :: json
  summary :: string
  diagnostics :: "(string \<times> json) list option"

text \<open>The four variables the \<^verbatim>\<open>for\<close> loop of \<^verbatim>\<open>execute\<close> updates.\<close>

record search =
  bestCut :: jsnum
  bestPartitions :: "string list \<times> string list"
  bestIteration :: nat
  runHistory :: "(nat \<times> nat) list"

text \<open>\<^verbatim>\<open>cut < bestCut\<close>, the left side a count.\<close>

definition below :: "nat \<Rightarrow> jsnum \<Rightarrow> bool" where
  "below c n = (case n of Fin r \<Rightarrow> of_nat c < r | PosInf \<Rightarrow> True | _ \<Rightarrow> False)"

text \<open>The loop body for the iterations still to run; \<open>rnds i\<close> are the draws of run \<open>i\<close>.\<close>

fun run_iterations ::
  "(nat \<Rightarrow> nat \<Rightarrow> nat) \<Rightarrow> KargerInput \<Rightarrow> nat list \<Rightarrow> search \<Rightarrow> thrown + search" where
  "run_iterations rnds input [] s = Inr s"
| "run_iterations rnds input (iteration # rest) s =
     (case singleRun (rnds iteration) input of
        Inl err \<Rightarrow> Inl err
      | Inr r \<Rightarrow>
          run_iterations rnds input rest
            (if below (cut r) (bestCut s)
             then \<lparr> bestCut = Fin (of_nat (cut r)), bestPartitions = partitions r,
                    bestIteration = iteration, runHistory = runHistory s @ [(iteration, cut r)] \<rparr>
             else s \<lparr> runHistory := runHistory s @ [(iteration, cut r)] \<rparr>))"

definition num :: "nat \<Rightarrow> json" where
  "num n = JNum (Fin (of_nat n))"

definition execute ::
  "host \<Rightarrow> (nat \<Rightarrow> nat \<Rightarrow> nat) \<Rightarrow> KargerInput \<Rightarrow> (string \<times> json) list \<Rightarrow> thrown + AlgorithmRunResult" where
  "execute h rnds input options =
     (let iterations = resolveIterations input options in
      case run_iterations rnds input [1..<Suc iterations]
             \<lparr> bestCut = PosInf, bestPartitions = ([], []), bestIteration = 0, runHistory = [] \<rparr> of
        Inl err \<Rightarrow> Inl err
      | Inr s \<Rightarrow>
          Inr \<lparr> outputValue = JObj [(''minCut'', JNum (bestCut s)),
                               (''partitions'', JArr [JArr (map JStr (fst (bestPartitions s))),
                                                      JArr (map JStr (snd (bestPartitions s)))])],
                summary = ''Estimated minimum cut is '' @ numberToString h (bestCut s) @ '' based on '' @
                          numberToString h (Fin (of_nat iterations)) @ '' iteration'' @
                          (if iterations = 1 then [] else ''s'') @ ''.'',
                diagnostics = Some [(''iterations'', num iterations),
                                    (''bestIteration'', num (bestIteration s)),
                                    (''runHistory'', JArr (map (\<lambda>e. JObj [(''iteration'', num (fst e)), (''cut'', num (snd e))])
                                                              (runHistory s)))] \<rparr>)"

section \<open>Registry, result store and request handling\<close>

record AlgorithmMetadata =
  meta_id :: string
  meta_name :: string
  meta_description :: string
  inputExplanation :: string
  inputExample :: json
  meta_options :: "AlgorithmOptionDefinition list"

text \<open>The classes derived from \<^verbatim>\<open>AlgorithmBase\<close>; the repository has one.\<close>

datatype algorithm = KargerMinCutAlgorithm

definition algorithm_id :: "algorithm \<Rightarrow> string" where
  "algorithm_id a = (case a of KargerMinCutAlgorithm \<Rightarrow> ''karger-min-cut'')"

text \<open>The example input, \<^verbatim>\<open>{ vertices: ['A','B','C','D'], edges: [['A','B'], ...] }\<close>.\<close>

definition input_json :: "KargerInput \<Rightarrow> json" where
  "input_json i =
     JObj [(''vertices'', JArr (map JStr (vertices i))),
           (''edges'', JArr (map (\<lambda>e. JArr [JStr (fst e), JStr (snd e)]) (edges i)))]"

definition kargerExample :: KargerInput where
  "kargerExample =
     \<lparr> vertices = [''A'', ''B'', ''C'', ''D''],
       edges = [(''A'', ''B''), (''A'', ''C''), (''B'', ''C''), (''B'', ''D''), (''C'', ''D'')] \<rparr>"

definition getMetadata :: "algorithm \<Rightarrow> AlgorithmMetadata" where
  "getMetadata a =
     (case a of KargerMinCutAlgorithm \<Rightarrow>
        \<lparr> meta_id = algorithm_id a, meta_name = ''Karger's Minimum Cut'',
          meta_description = ''Estimates the minimum cut of an undirected graph using K'' @ [CHR 0xC3, CHR 0xA4] @
            ''rger's randomized contraction algorithm.'',
          inputExplanation = ''Provide the undirected graph as a JSON object with an optional \"vertices\" array and a required \"edges\" array of [source, target] pairs. Vertices not listed will be inferred from the edges.'',
          inputExample = input_json kargerExample,
          meta_options = optionDefinitions \<rparr>)"

definition registry :: "(string \<times> algorithm) list" where
  "registry = obj_set [] (algorithm_id KargerMinCutAlgorithm) KargerMinCutAlgorithm"

definition prepare ::
  "host \<Rightarrow> algorithm \<Rightarrow> json \<Rightarrow> json \<Rightarrow> thrown + KargerInput \<times> (string \<times> json) list" where
  "prepare h a rawInput rawOptions =
     (case a of KargerMinCutAlgorithm \<Rightarrow>
        (case parseInput h rawInput of
           Inl err \<Rightarrow> Inl err
         | Inr input \<Rightarrow>
             (case parseOptions h optionDefinitions rawOptions of
                Inl err \<Rightarrow> Inl err
              | Inr opts \<Rightarrow> Inr (input, opts))))"

definition runWithPrepared ::
  "host \<Rightarrow> (nat \<Rightarrow> nat \<Rightarrow> nat) \<Rightarrow> algorithm \<Rightarrow> KargerInput \<times> (string \<times> json) list \<Rightarrow>
   thrown + AlgorithmRunResult" where
  "runWithPrepared h rnds a prepared =
     (case a of KargerMinCutAlgorithm \<Rightarrow> execute h rnds (fst prepared) (snd prepared))"

text \<open>The table behind \<^verbatim>\<open>TABLE_NAME\<close>. \<^verbatim>\<open>dynamo.send\<close> either answers or rejects with an
  \<^verbatim>\<open>Error\<close>; the two fault fields say, for reads and for writes, whether it rejects and with
  which message.\<close>

record CacheRecord =
  record_id :: digest
  algorithmId :: string
  createdAt :: string
  result :: AlgorithmRunResult

record store =
  items :: "digest \<Rightarrow> CacheRecord option"
  get_fault :: "string option"
  put_fault :: "string option"

definition send_Get :: "store \<Rightarrow> digest \<Rightarrow> thrown + CacheRecord option" where
  "send_Get st k = (case get_fault st of Some m \<Rightarrow> Inl (Error m) | None \<Rightarrow> Inr (items st k))"

definition send_Put :: "store \<Rightarrow> CacheRecord \<Rightarrow> thrown + store" where
  "send_Put st r =
     (case put_fault st of
        Some m \<Rightarrow> Inl (Error m)
      | None \<Rightarrow> Inr (st \<lparr> items := (items st) (record_id r \<mapsto> r) \<rparr>))"

text \<open>A response body is the \<^verbatim>\<open>JSON.stringify\<close> of one of five shapes; the shape is kept.\<close>

datatype response_body =
    EmptyBody
  | MessageBody (message: string)
  | HealthBody
  | AlgorithmsBody (algorithms: "AlgorithmMetadata list")
  | RunBody (run_algorithmId: string) (cached: bool) (run_result: AlgorithmRunResult)

record LambdaResponse =
  statusCode :: nat
  headers :: "(string \<times> string) list"
  body :: response_body

definition baseHeaders :: "(string \<times> string) list" where
  "baseHeaders =
     [(''Content-Type'', ''application/json''), (''Access-Control-Allow-Origin'', ''*''),
      (''Access-Control-Allow-Methods'', ''GET,POST,OPTIONS''), (''Access-Control-Allow-Headers'', ''*'')]"

definition buildResponse :: "nat \<Rightarrow> response_body \<Rightarrow> LambdaResponse" where
  "buildResponse code b = \<lparr> statusCode = code, headers = baseHeaders, body = b \<rparr>"

definition augmentResultWithOptions :: "AlgorithmRunResult \<Rightarrow> (string \<times> json) list \<Rightarrow> AlgorithmRunResult" where
  "augmentResultWithOptions r opts =
     r \<lparr> diagnostics :=
           Some (obj_set (case diagnostics r of None \<Rightarrow> [] | Some d \<Rightarrow> d) ''optionsUsed'' (JObj opts)) \<rparr>"

text \<open>The \<^verbatim>\<open>replace\<close> of \<^verbatim>\<open>normalisePath\<close>: the regular expression matches the whole run of
  slashes at the end.\<close>

definition strip_slashes :: "string \<Rightarrow> string" where
  "strip_slashes p = rev (dropWhile (\<lambda>c. c = CHR ''/'') (rev p))"

text \<open>\<open>urlPathname h p\<close> is \<^verbatim>\<open>new URL(p, 'https://placeholder').pathname\<close>, \<open>None\<close> when the
  constructor throws.\<close>

definition normalisePath :: "host \<Rightarrow> string option \<Rightarrow> string" where
  "normalisePath h path =
     (case path of
        None \<Rightarrow> ''/''
      | Some p \<Rightarrow>
          if p = [] then ''/''
          else (case urlPathname h p of
                  Some pathname \<Rightarrow> (if strip_slashes pathname = [] then ''/'' else strip_slashes pathname)
                | None \<Rightarrow> (if strip_slashes p = [] then ''/'' else strip_slashes p)))"

definition parseJson :: "host \<Rightarrow> string \<Rightarrow> thrown + json" where
  "parseJson h b =
     (if b = [] then Inl (ClientError ''Request body is required.'')
      else (case jsonParse h b of
              None \<Rightarrow> Inl (ClientError ''Request body contains invalid JSON.'')
            | Some parsed \<Rightarrow>
                if \<not> is_object parsed then Inl (ClientError ''JSON payload must be an object.'')
                else Inr parsed))"

definition handleListAlgorithms :: LambdaResponse where
  "handleListAlgorithms = buildResponse 200 (AlgorithmsBody (map (\<lambda>e. getMetadata (snd e)) registry))"

text \<open>
  \<^verbatim>\<open>handleRunAlgorithm\<close>, with the store passed in and returned. \<open>now\<close> is
  \<^verbatim>\<open>new Date().toISOString()\<close>. \<open>Inl\<close> is an exception that leaves the function.
\<close>

definition handleRunAlgorithm ::
  "host \<Rightarrow> (nat \<Rightarrow> nat \<Rightarrow> nat) \<Rightarrow> string \<Rightarrow> store \<Rightarrow> string \<Rightarrow> thrown + LambdaResponse \<times> store" where
  "handleRunAlgorithm h rnds now st b =
     (case parseJson h b of
        Inl err \<Rightarrow>
          Inr (buildResponse 400 (MessageBody
                 (case err of ClientError m \<Rightarrow> m | Error m \<Rightarrow> m | NotAnError \<Rightarrow> ''Invalid JSON payload'')), st)
      | Inr payload \<Rightarrow>
          (case (case get_prop payload ''algorithmId'' of Some (JStr s) \<Rightarrow> (if s = [] then None else Some s) | _ \<Rightarrow> None) of
             None \<Rightarrow> Inr (buildResponse 400 (MessageBody ''Missing required property \"algorithmId\".''), st)
           | Some aid \<Rightarrow>
               (case map_of registry aid of
                  None \<Rightarrow> Inr (buildResponse 404 (MessageBody (''Algorithm with id \"'' @ aid @ ''\" was not found.'')), st)
                | Some a \<Rightarrow>
                    (case prepare h a (the (nullish (get_prop payload ''input'') (Some (JObj []))))
                                      (the (nullish (get_prop payload ''options'') (Some (JObj [])))) of
                       Inl err \<Rightarrow> Inl err
                     | Inr prepared \<Rightarrow>
                         (let cacheKey = createCacheKey h aid (input_json (fst prepared)) (JObj (snd prepared)) in
                          case send_Get st cacheKey of
                            Inl err \<Rightarrow> Inl err
                          | Inr (Some item) \<Rightarrow>
                              Inr (buildResponse 200
                                     (RunBody aid True (augmentResultWithOptions (result item) (snd prepared))), st)
                          | Inr None \<Rightarrow>
                              (case runWithPrepared h rnds a prepared of
                                 Inl err \<Rightarrow> Inl err
                               | Inr runResult \<Rightarrow>
                                   (let res = augmentResultWithOptions runResult (snd prepared) in
                                    case send_Put st \<lparr> record_id = cacheKey, algorithmId = aid,
                                                        createdAt = now, result = res \<rparr> of
                                      Inl err \<Rightarrow> Inl err
                                    | Inr st' \<Rightarrow> Inr (buildResponse 200 (RunBody aid False res), st'))))))))"

record LambdaFunctionUrlEvent =
  http_method :: "string option"
  http_path :: "string option"
  event_body :: "string option"

text \<open>The \<^verbatim>\<open>catch\<close> clause of \<^verbatim>\<open>handler\<close>.\<close>

definition on_error :: "thrown \<Rightarrow> LambdaResponse" where
  "on_error err =
     (case err of
        ClientError m \<Rightarrow> buildResponse 400 (MessageBody m)
      | Error m \<Rightarrow> buildResponse 500 (MessageBody m)
      | NotAnError \<Rightarrow> buildResponse 500 (MessageBody ''Internal server error''))"

text \<open>The body of \<^verbatim>\<open>handler\<close> once \<^verbatim>\<open>method\<close> and \<^verbatim>\<open>path\<close> are computed; \<open>b\<close> is
  \<^verbatim>\<open>event.body ?? ''\<close>.\<close>

definition dispatch ::
  "host \<Rightarrow> (nat \<Rightarrow> nat \<Rightarrow> nat) \<Rightarrow> string \<Rightarrow> store \<Rightarrow> string \<Rightarrow> string \<Rightarrow> string \<Rightarrow> LambdaResponse \<times> store" where
  "dispatch h rnds now st method path b =
     (if method = ''OPTIONS'' then (buildResponse 204 EmptyBody, st)
      else if method = ''GET'' \<and> path = ''/algorithms'' then (handleListAlgorithms, st)
      else if method = ''POST'' \<and> path = ''/run'' then
        (case handleRunAlgorithm h rnds now st b of
           Inl err \<Rightarrow> (on_error err, st)
         | Inr out \<Rightarrow> out)
      else if method = ''GET'' \<and> path = ''/health'' then (buildResponse 200 HealthBody, st)
      else (buildResponse 404 (MessageBody ''Not Found''), st))"

definition handler ::
  "host \<Rightarrow> (nat \<Rightarrow> nat \<Rightarrow> nat) \<Rightarrow> string \<Rightarrow> store \<Rightarrow> LambdaFunctionUrlEvent \<Rightarrow> LambdaResponse \<times> store" where
  "handler h rnds now st event =
     dispatch h rnds now st
       (case http_method event of None \<Rightarrow> ''GET'' | Some m \<Rightarrow> m)
       (normalisePath h (http_path event))
       (case event_body event of None \<Rightarrow> [] | Some b \<Rightarrow> b)"

section \<open>A reference host\<close>

text \<open>
  To run the definitions on concrete requests the host functions need values. The ones below
  are exact on a stated fragment of what Node.js does and are used on that fragment only.
\<close>

subsection \<open>Collation\<close>

text \<open>
  ECMA-262 asks of \<^verbatim>\<open>localeCompare\<close> a consistent comparator that returns 0 on canonically
  equivalent strings; with ICU it compares letters before case, lower case first. \<open>collate\<close>
  follows the Unicode collation algorithm (collation elements with primary, secondary and
  tertiary weight, compared level by level) on ASCII letters and digits, the letter U+00E4
  (bytes C3 A4) and the combining diaeresis U+0308 (bytes CC 88).
\<close>

definition ce_char :: "char \<Rightarrow> nat \<times> nat \<times> nat" where
  "ce_char c =
     (let n = (of_char c :: nat) in
      if 97 \<le> n \<and> n \<le> 122 then (2000 + (n - 97), 0, 0)
      else if 65 \<le> n \<and> n \<le> 90 then (2000 + (n - 65), 0, 1)
      else if 48 \<le> n \<and> n \<le> 57 then (1000 + (n - 48), 0, 0)
      else (1 + n, 0, 0))"

fun collation_elements :: "string \<Rightarrow> (nat \<times> nat \<times> nat) list" where
  "collation_elements [] = []"
| "collation_elements [c] = [ce_char c]"
| "collation_elements (c # d # cs) =
     (if c = CHR 0xC3 \<and> d = CHR 0xA4 then ce_char CHR ''a'' # (0, 1, 0) # collation_elements cs
      else if c = CHR 0xCC \<and> d = CHR 0x88 then (0, 1, 0) # collation_elements cs
      else ce_char c # collation_elements (d # cs))"

definition collation_key :: "string \<Rightarrow> nat list \<times> nat list \<times> nat list" where
  "collation_key s =
     (let ces = collation_elements s in
      (filter (\<lambda>p. p \<noteq> 0) (map fst ces), map (\<lambda>e. fst (snd e)) ces, map (\<lambda>e. snd (snd e)) ces))"

definition collate :: "string \<Rightarrow> string \<Rightarrow> int" where
  "collate a b =
     (if collation_key a < collation_key b then - 1 else if collation_key b < collation_key a then 1 else 0)"

subsection \<open>Numbers and strings\<close>

text \<open>\<^verbatim>\<open>Number.prototype.toString\<close>, exact on integers and on fractions with a short decimal
  expansion.\<close>

fun frac_digits :: "nat \<Rightarrow> rat \<Rightarrow> string" where
  "frac_digits 0 f = []"
| "frac_digits (Suc k) f =
     (if f = 0 then []
      else char_of (48 + nat \<lfloor>f * 10\<rfloor>) # frac_digits k (f * 10 - of_int \<lfloor>f * 10\<rfloor>))"

definition show_rat :: "rat \<Rightarrow> string" where
  "show_rat r =
     (let a = \<bar>r\<bar>; f = a - of_int \<lfloor>a\<rfloor> in
      (if r < 0 then ''-'' else []) @ show_nat (nat \<lfloor>a\<rfloor>) @
      (if f = 0 then [] else ''.'' @ frac_digits 20 f))"

definition show_number :: "jsnum \<Rightarrow> string" where
  "show_number n =
     (case n of NaN \<Rightarrow> ''NaN'' | PosInf \<Rightarrow> ''Infinity'' | NegInf \<Rightarrow> ''-Infinity'' | Fin r \<Rightarrow> show_rat r)"

definition is_space :: "char \<Rightarrow> bool" where
  "is_space c = (c = CHR '' '' \<or> (9 \<le> (of_char c :: nat) \<and> (of_char c :: nat) \<le> 13))"

definition trim :: "string \<Rightarrow> string" where
  "trim s = rev (dropWhile is_space (rev (dropWhile is_space s)))"

definition lower_char :: "char \<Rightarrow> char" where
  "lower_char c = (if 65 \<le> (of_char c :: nat) \<and> (of_char c :: nat) \<le> 90 then char_of (of_char c + 32 :: nat) else c)"

definition trim_lower :: "string \<Rightarrow> string" where
  "trim_lower s = map lower_char (trim s)"

definition is_digit :: "char \<Rightarrow> bool" where
  "is_digit c = (48 \<le> (of_char c :: nat) \<and> (of_char c :: nat) \<le> 57)"

definition digits_value :: "string \<Rightarrow> nat" where
  "digits_value ds = foldl (\<lambda>n c. 10 * n + (of_char c - 48)) 0 ds"

text \<open>String to number, exact on optionally signed decimal literals without exponent, and on
  the empty string.\<close>

definition unsigned_number :: "string \<Rightarrow> jsnum" where
  "unsigned_number s =
     (let ip = takeWhile is_digit s; rest = dropWhile is_digit s in
      if rest = [] then (if ip = [] then NaN else Fin (of_nat (digits_value ip)))
      else if hd rest = CHR ''.'' \<and> list_all is_digit (tl rest) \<and> (ip \<noteq> [] \<or> tl rest \<noteq> [])
        then Fin (of_nat (digits_value ip) + of_nat (digits_value (tl rest)) / 10 ^ length (tl rest))
      else NaN)"

definition string_number :: "string \<Rightarrow> jsnum" where
  "string_number s =
     (let t = trim s in
      if t = [] then Fin 0
      else if hd t = CHR ''-'' then (case unsigned_number (tl t) of Fin r \<Rightarrow> Fin (- r) | _ \<Rightarrow> NaN)
      else if hd t = CHR ''+'' then unsigned_number (tl t)
      else unsigned_number t)"

text \<open>\<^verbatim>\<open>Number(value)\<close>: an array or object goes through its string form, given by \<open>str\<close>.\<close>

definition to_number :: "(json \<Rightarrow> string) \<Rightarrow> json \<Rightarrow> jsnum" where
  "to_number str v =
     (case v of
        JNull \<Rightarrow> Fin 0
      | JBool b \<Rightarrow> Fin (if b then 1 else 0)
      | JNum n \<Rightarrow> n
      | JStr s \<Rightarrow> string_number s
      | _ \<Rightarrow> string_number (str v))"

subsection \<open>JSON text\<close>

text \<open>\<^verbatim>\<open>JSON.parse\<close> by recursive descent, exact on texts without white space, without escape
  sequences in strings and without exponents in numbers. The first argument bounds the
  nesting depth; \<open>None\<close> is the \<^verbatim>\<open>SyntaxError\<close>.\<close>

fun parse_string_chars :: "string \<Rightarrow> (string \<times> string) option" where
  "parse_string_chars [] = None"
| "parse_string_chars (c # cs) =
     (if c = CHR 0x22 then Some ([], cs)
      else if c = CHR 0x5C \<or> (of_char c :: nat) < 32 then None
      else (case parse_string_chars cs of None \<Rightarrow> None | Some sr \<Rightarrow> Some (c # fst sr, snd sr)))"

definition parse_number :: "string \<Rightarrow> (jsnum \<times> string) option" where
  "parse_number s =
     (let neg = (s \<noteq> [] \<and> hd s = CHR ''-'');
          s1 = (if neg then tl s else s);
          ip = takeWhile is_digit s1;
          r1 = dropWhile is_digit s1;
          sign = (if neg then - 1 else 1 :: rat)
      in if ip = [] \<or> (1 < length ip \<and> hd ip = CHR ''0'') then None
         else if r1 \<noteq> [] \<and> hd r1 = CHR ''.'' then
           (let fp = takeWhile is_digit (tl r1) in
            if fp = [] then None
            else Some (Fin (sign * (of_nat (digits_value ip) + of_nat (digits_value fp) / 10 ^ length fp)),
                       dropWhile is_digit (tl r1)))
         else Some (Fin (sign * of_nat (digits_value ip)), r1))"

fun parse_value :: "nat \<Rightarrow> string \<Rightarrow> (json \<times> string) option"
  and parse_elements :: "nat \<Rightarrow> string \<Rightarrow> (json list \<times> string) option"
  and parse_members :: "nat \<Rightarrow> string \<Rightarrow> ((string \<times> json) list \<times> string) option" where
  "parse_value 0 s = None"
| "parse_value (Suc n) s =
     (case s of
        [] \<Rightarrow> None
      | c # cs \<Rightarrow>
          if c = CHR ''n'' then (if take 3 cs = ''ull'' then Some (JNull, drop 3 cs) else None)
          else if c = CHR ''t'' then (if take 3 cs = ''rue'' then Some (JBool True, drop 3 cs) else None)
          else if c = CHR ''f'' then (if take 4 cs = ''alse'' then Some (JBool False, drop 4 cs) else None)
          else if c = CHR 0x22 then
            (case parse_string_chars cs of None \<Rightarrow> None | Some sr \<Rightarrow> Some (JStr (fst sr), snd sr))
          else if c = CHR ''['' then
            (if take 1 cs = '']'' then Some (JArr [], drop 1 cs)
             else (case parse_elements n cs of None \<Rightarrow> None | Some vr \<Rightarrow> Some (JArr (fst vr), snd vr)))
          else if c = CHR ''{'' then
            (if take 1 cs = ''}'' then Some (JObj [], drop 1 cs)
             else (case parse_members n cs of
                     None \<Rightarrow> None
                   | Some mr \<Rightarrow> Some (JObj (fold (\<lambda>e m. obj_set m (fst e) (snd e)) (fst mr) []), snd mr)))
          else (case parse_number s of None \<Rightarrow> None | Some nr \<Rightarrow> Some (JNum (fst nr), snd nr)))"
| "parse_elements 0 s = None"
| "parse_elements (Suc n) s =
     (case parse_value n s of
        None \<Rightarrow> None
      | Some vr \<Rightarrow>
          (case snd vr of
             [] \<Rightarrow> None
           | c # cs \<Rightarrow>
               if c = CHR '','' then
                 (case parse_elements n cs of None \<Rightarrow> None | Some wr \<Rightarrow> Some (fst vr # fst wr, snd wr))
               else if c = CHR '']'' then Some ([fst vr], cs)
               else None))"
| "parse_members 0 s = None"
| "parse_members (Suc n) s =
     (case s of
        [] \<Rightarrow> None
      | q # s1 \<Rightarrow>
          if q \<noteq> CHR 0x22 then None
          else (case parse_string_chars s1 of
                  None \<Rightarrow> None
                | Some kr \<Rightarrow>
                    (case snd kr of
                       [] \<Rightarrow> None
                     | colon # s2 \<Rightarrow>
                         if colon \<noteq> CHR '':'' then None
                         else (case parse_value n s2 of
                                 None \<Rightarrow> None
                               | Some vr \<Rightarrow>
                                   (case snd vr of
                                      [] \<Rightarrow> None
                                    | c # cs \<Rightarrow>
                                        if c = CHR '','' then
                                          (case parse_members n cs of
                                             None \<Rightarrow> None
                                           | Some mr \<Rightarrow> Some ((fst kr, fst vr) # fst mr, snd mr))
                                        else if c = CHR ''}'' then Some ([(fst kr, fst vr)], cs)
                                        else None)))))"

definition json_parse :: "string \<Rightarrow> json option" where
  "json_parse s =
     (case parse_value (Suc (length s)) s of
        Some vr \<Rightarrow> (if snd vr = [] then Some (fst vr) else None)
      | None \<Rightarrow> None)"

subsection \<open>The host\<close>

text \<open>The pathname of a path made of slashes and unreserved characters, not starting with two
  slashes and free of dot segments, is the path itself.\<close>

definition node0 :: host where
  "node0 = \<lparr> localeCompare = collate, toNumber = (\<lambda>v. NaN), numberToString = show_number,
             trimLower = trim_lower, urlPathname = Some, jsonParse = json_parse \<rparr>"

definition node :: host where
  "node = node0 \<lparr> toNumber := to_number (js_String node0) \<rparr>"

subsection \<open>Stores, draws and requests\<close>

text \<open>Requests and stores to run the handler on.\<close>

definition empty_store :: store where
  "empty_store = \<lparr> items = Map.empty, get_fault = None, put_fault = None \<rparr>"

text \<open>Draws that pick the first edge of the working list in every turn of every run.\<close>

definition first_edge :: "nat \<Rightarrow> nat \<Rightarrow> nat" where
  "first_edge iteration = always 0"

definition health_event :: LambdaFunctionUrlEvent where
  "health_event = \<lparr> http_method = Some ''GET'', http_path = None, event_body = None \<rparr>"

section \<open>Canonical encoding: order of keys\<close>

text \<open>What ECMA-262 calls a consistent comparator: a total preorder given by the sign.\<close>

definition consistent :: "(string \<Rightarrow> string \<Rightarrow> int) \<Rightarrow> bool" where
  "consistent c \<longleftrightarrow>
     (\<forall>a. c a a = 0) \<and> (\<forall>a b. c a b < 0 \<longleftrightarrow> 0 < c b a) \<and>
     (\<forall>a b x. c a b \<le> 0 \<and> c b x \<le> 0 \<longrightarrow> c a x \<le> 0)"

text \<open>An object has each key once.\<close>

fun wf_json :: "json \<Rightarrow> bool" where
  "wf_json (JArr vs) = (\<forall>v \<in> set vs. wf_json v)"
| "wf_json (JObj es) = (distinct (map fst es) \<and> (\<forall>e \<in> set es. wf_json (snd e)))"
| "wf_json _ = True"

text \<open>No object has two different keys that the host comparator reports as equal.\<close>

fun keys_apart :: "host \<Rightarrow> json \<Rightarrow> bool" where
  "keys_apart h (JArr vs) = (\<forall>v \<in> set vs. keys_apart h v)"
| "keys_apart h (JObj es) =
     ((\<forall>a \<in> set es. \<forall>b \<in> set es. localeCompare h (fst a) (fst b) = 0 \<longrightarrow> fst a = fst b) \<and>
      (\<forall>e \<in> set es. keys_apart h (snd e)))"
| "keys_apart h _ = True"

text \<open>Structural equality up to the order of the entries of objects.\<close>

inductive json_equiv :: "json \<Rightarrow> json \<Rightarrow> bool" where
  equiv_same: "json_equiv v v"
| equiv_arr: "list_all2 json_equiv vs ws \<Longrightarrow> json_equiv (JArr vs) (JArr ws)"
| equiv_obj: "list_all2 (\<lambda>x z. fst x = fst z \<and> json_equiv (snd x) (snd z)) xs zs \<Longrightarrow>
     mset zs = mset ys \<Longrightarrow> json_equiv (JObj xs) (JObj ys)"

lemma mset_insert_by: "mset (insert_by c x ys) = add_mset x (mset ys)"
  by (induction ys) auto

lemma mset_sort_by: "mset (sort_by c xs) = mset xs"
  by (induction xs) (auto simp: sort_by_def mset_insert_by)

lemma sorted_insert_by:
  assumes tot: "\<And>a b. c a b \<le> 0 \<or> c b a \<le> 0"
    and trans: "\<And>a b x. c a b \<le> 0 \<Longrightarrow> c b x \<le> 0 \<Longrightarrow> c a x \<le> 0"
  shows "sorted_wrt (\<lambda>a b. c a b \<le> 0) ys \<Longrightarrow> sorted_wrt (\<lambda>a b. c a b \<le> 0) (insert_by c x ys)"
proof (induction ys)
  case Nil
  then show ?case by simp
next
  case (Cons y ys)
  show ?case
  proof (cases "c x y \<le> 0")
    case True
    with Cons.prems trans show ?thesis by auto
  next
    case False
    with tot have "c y x \<le> 0" by blast
    with False Cons show ?thesis by (auto simp: set_insert_by)
  qed
qed

lemma sorted_sort_by:
  assumes tot: "\<And>a b. c a b \<le> 0 \<or> c b a \<le> 0"
    and trans: "\<And>a b x. c a b \<le> 0 \<Longrightarrow> c b x \<le> 0 \<Longrightarrow> c a x \<le> 0"
  shows "sorted_wrt (\<lambda>a b. c a b \<le> 0) (sort_by c xs)"
proof (induction xs)
  case Nil
  then show ?case by (simp add: sort_by_def)
next
  case (Cons x xs)
  have "sort_by c (x # xs) = insert_by c x (sort_by c xs)" by (simp add: sort_by_def)
  with Cons sorted_insert_by [of c, OF tot trans] show ?case by simp
qed

lemma sorted_wrt_unique:
  assumes "sorted_wrt le xs" "sorted_wrt le ys" "mset xs = mset ys"
    and "\<And>a b. a \<in> set xs \<Longrightarrow> b \<in> set xs \<Longrightarrow> le a b \<Longrightarrow> le b a \<Longrightarrow> a = b"
  shows "xs = ys"
  using assms
proof (induction xs arbitrary: ys)
  case Nil
  then show ?case by simp
next
  case (Cons x xs)
  then obtain y ys' where ys: "ys = y # ys'" by (cases ys) auto
  have sets: "set (x # xs) = set (y # ys')"
    using Cons.prems(3) ys by (metis mset_eq_setD)
  have "x = y"
  proof (rule ccontr)
    assume ne: "x \<noteq> y"
    with sets have in': "x \<in> set ys'" "y \<in> set xs" by auto
    with Cons.prems(1,2) ys have "le y x" "le x y" by auto
    with Cons.prems(4) [of x y] in' ne show False by auto
  qed
  with Cons.prems ys have "xs = ys'"
    by (intro Cons.IH) auto
  with \<open>x = y\<close> ys show ?case by simp
qed

lemma consistent_total: "consistent c \<Longrightarrow> c a b \<le> 0 \<or> c b a \<le> 0"
  unfolding consistent_def by (metis not_le order_less_imp_le)

lemma consistent_trans: "consistent c \<Longrightarrow> c a b \<le> 0 \<Longrightarrow> c b x \<le> 0 \<Longrightarrow> c a x \<le> 0"
  unfolding consistent_def by blast

lemma consistent_zero: "consistent c \<Longrightarrow> c a b \<le> 0 \<Longrightarrow> c b a \<le> 0 \<Longrightarrow> c a b = 0"
  unfolding consistent_def by (metis order_antisym_conv not_le)

lemma sorted_entries:
  "consistent (localeCompare h) \<Longrightarrow>
   sorted_wrt (\<lambda>a b. entry_cmp h a b \<le> 0) (sort_by (entry_cmp h) es)"
proof (rule sorted_sort_by)
  fix a b x :: "string \<times> 'a"
  assume c: "consistent (localeCompare h)"
  show "entry_cmp h a b \<le> 0 \<or> entry_cmp h b a \<le> 0"
    using consistent_total [OF c] by (simp add: entry_cmp_def)
  show "entry_cmp h a b \<le> 0 \<Longrightarrow> entry_cmp h b x \<le> 0 \<Longrightarrow> entry_cmp h a x \<le> 0"
    using consistent_trans [OF c] by (simp add: entry_cmp_def)
qed

lemma sort_by_permuted:
  assumes c: "consistent (localeCompare h)" and m: "mset zs = mset ys"
    and d: "distinct (map fst zs)"
    and apart: "\<forall>a \<in> set zs. \<forall>b \<in> set zs. localeCompare h (fst a) (fst b) = 0 \<longrightarrow> fst a = fst b"
  shows "sort_by (entry_cmp h) zs = sort_by (entry_cmp h) ys"
proof (rule sorted_wrt_unique [where le = "\<lambda>a b. entry_cmp h a b \<le> 0"])
  show "sorted_wrt (\<lambda>a b. entry_cmp h a b \<le> 0) (sort_by (entry_cmp h) zs)"
    using c by (rule sorted_entries)
  show "sorted_wrt (\<lambda>a b. entry_cmp h a b \<le> 0) (sort_by (entry_cmp h) ys)"
    using c by (rule sorted_entries)
  show "mset (sort_by (entry_cmp h) zs) = mset (sort_by (entry_cmp h) ys)"
    using m by (simp add: mset_sort_by)
next
  fix a b
  assume a: "a \<in> set (sort_by (entry_cmp h) zs)" and b: "b \<in> set (sort_by (entry_cmp h) zs)"
    and le: "entry_cmp h a b \<le> 0" "entry_cmp h b a \<le> 0"
  from a b have ab: "a \<in> set zs" "b \<in> set zs" by (simp_all add: set_sort_by)
  from le c have "localeCompare h (fst a) (fst b) = 0"
    by (auto simp: entry_cmp_def dest: consistent_zero)
  with apart ab have "fst a = fst b" by blast
  with d ab show "a = b" by (meson eq_key_imp_eq_value prod_eqI distinct_map inj_onD)
qed

lemma insert_by_related:
  assumes "\<And>x z. R x z \<Longrightarrow> fst x = fst z"
  shows "R x z \<Longrightarrow> list_all2 R ys ws \<Longrightarrow>
         list_all2 R (insert_by (entry_cmp h) x ys) (insert_by (entry_cmp h) z ws)"
proof (induction ys arbitrary: ws)
  case Nil
  then show ?case by simp
next
  case (Cons y ys)
  then obtain w ws' where ws: "ws = w # ws'" "R y w" "list_all2 R ys ws'"
    by (auto simp: list_all2_Cons1)
  with assms Cons.prems(1) have "entry_cmp h x y = entry_cmp h z w"
    by (simp add: entry_cmp_def)
  with ws Cons show ?case by auto
qed

lemma sort_by_related:
  assumes "\<And>x z. R x z \<Longrightarrow> fst x = fst z"
  shows "list_all2 R xs zs \<Longrightarrow> list_all2 R (sort_by (entry_cmp h) xs) (sort_by (entry_cmp h) zs)"
proof (induction rule: list_all2_induct)
  case Nil
  then show ?case by (simp add: sort_by_def)
next
  case (Cons x xs z zs)
  then show ?case using insert_by_related [of R, OF assms] by (simp add: sort_by_def)
qed

lemma stableStringify_equiv:
  assumes c: "consistent (localeCompare h)"
  shows "json_equiv v w \<Longrightarrow> wf_json v \<Longrightarrow> keys_apart h v \<Longrightarrow>
         stableStringify h v = stableStringify h w"
proof (induction rule: json_equiv.induct)
  case (equiv_same v)
  then show ?case by simp
next
  case (equiv_arr vs ws)
  from equiv_arr
  have "map (stableStringify h) vs = map (stableStringify h) ws"
    by (induction rule: list_all2_induct) auto
  then show ?case by simp
next
  case (equiv_obj xs zs ys)
  let ?R = "\<lambda>x z. fst x = fst z \<and> stableStringify h (snd x) = stableStringify h (snd z)"
  let ?enc = "\<lambda>e. quote (fst e) @ '':'' @ stableStringify h (snd e)"
  from equiv_obj(1) equiv_obj.prems
  have rel: "list_all2 ?R xs zs"
    by (induction rule: list_all2_induct) auto
  then have keys: "map fst xs = map fst zs"
    by (induction rule: list_all2_induct) auto
  have "list_all2 ?R (sort_by (entry_cmp h) xs) (sort_by (entry_cmp h) zs)"
    using rel by (rule sort_by_related [rotated]) simp
  then have enc: "map ?enc (sort_by (entry_cmp h) xs) = map ?enc (sort_by (entry_cmp h) zs)"
    by (induction rule: list_all2_induct) auto
  have d: "distinct (map fst zs)" using equiv_obj.prems(1) keys by simp
  have "\<forall>a \<in> set xs. \<forall>b \<in> set xs. localeCompare h (fst a) (fst b) = 0 \<longrightarrow> fst a = fst b"
    using equiv_obj.prems(2) by simp
  then have "\<forall>k \<in> set (map fst xs). \<forall>l \<in> set (map fst xs). localeCompare h k l = 0 \<longrightarrow> k = l"
    by auto
  then have ap: "\<forall>a \<in> set zs. \<forall>b \<in> set zs. localeCompare h (fst a) (fst b) = 0 \<longrightarrow> fst a = fst b"
    unfolding keys by auto
  have "sort_by (entry_cmp h) zs = sort_by (entry_cmp h) ys"
    using c equiv_obj(2) d ap by (rule sort_by_permuted)
  with enc show ?case by simp
qed


subsection \<open>The reference comparator is consistent\<close>

lemma consistent_collate: "consistent collate"
  unfolding consistent_def collate_def by (auto simp: not_less)

lemma consistent_node: "consistent (localeCompare node)"
  by (simp add: node_def node0_def consistent_collate)

subsection \<open>The sort is stable\<close>

lemma consistent_tie:
  assumes "consistent c" "c x k = 0" "c y k = 0"
  shows "c x y = 0"
proof -
  from assms(1,3) have "c k y = 0" unfolding consistent_def by (metis less_irrefl linorder_neqE_linordered_idom)
  with assms have "c x y \<le> 0" by (metis consistent_trans order_refl)
  moreover from assms(1,2) have "c k x = 0" unfolding consistent_def by (metis less_irrefl linorder_neqE_linordered_idom)
  with assms have "c y x \<le> 0" by (metis consistent_trans order_refl)
  ultimately show ?thesis using consistent_zero [OF assms(1)] by blast
qed

lemma filter_insert_by_tied:
  assumes c: "consistent (localeCompare h)"
  shows "filter (\<lambda>e. localeCompare h (fst e) k = 0) (insert_by (entry_cmp h) x ys) =
         filter (\<lambda>e. localeCompare h (fst e) k = 0) (x # ys)"
proof (induction ys)
  case Nil
  then show ?case by simp
next
  case (Cons y ys)
  show ?case
  proof (cases "entry_cmp h x y \<le> 0")
    case True
    then show ?thesis by simp
  next
    case False
    then have "\<not> (localeCompare h (fst x) k = 0 \<and> localeCompare h (fst y) k = 0)"
      using consistent_tie [OF c, of "fst x" k "fst y"] by (auto simp: entry_cmp_def)
    with False Cons show ?thesis by auto
  qed
qed

lemma filter_sort_by_tied:
  assumes c: "consistent (localeCompare h)"
  shows "filter (\<lambda>e. localeCompare h (fst e) k = 0) (sort_by (entry_cmp h) es) =
         filter (\<lambda>e. localeCompare h (fst e) k = 0) es"
proof (induction es)
  case Nil
  then show ?case by (simp add: sort_by_def)
next
  case (Cons e es)
  have "sort_by (entry_cmp h) (e # es) = insert_by (entry_cmp h) e (sort_by (entry_cmp h) es)"
    by (simp add: sort_by_def)
  with Cons filter_insert_by_tied [OF c, of k e "sort_by (entry_cmp h) es"] show ?case by simp
qed

text \<open>
  Claim C7, as the code has it. The entries of an object are encoded in the order of a stable
  sort by \<^verbatim>\<open>localeCompare\<close>: the encoding is the join of the encoded entries of a list that
  is a permutation of the object's entries, ascending for the host comparator, and in which
  keys that the comparator reports as equal keep the order they had in the object.
\<close>

theorem stableStringify_key_order:
  assumes "consistent (localeCompare h)"
  shows "\<exists>es'. stableStringify h (JObj es) =
            ''{'' @ join '','' (map (\<lambda>e. quote (fst e) @ '':'' @ stableStringify h (snd e)) es') @ ''}'' \<and>
          mset es' = mset es \<and>
          sorted_wrt (\<lambda>a b. localeCompare h (fst a) (fst b) \<le> 0) es' \<and>
          (\<forall>k. filter (\<lambda>e. localeCompare h (fst e) k = 0) es' = filter (\<lambda>e. localeCompare h (fst e) k = 0) es)"
proof (intro exI conjI allI)
  show "stableStringify h (JObj es) =
          ''{'' @ join '','' (map (\<lambda>e. quote (fst e) @ '':'' @ stableStringify h (snd e))
                                 (sort_by (entry_cmp h) es)) @ ''}''"
    by simp
  show "mset (sort_by (entry_cmp h) es) = mset es" by (rule mset_sort_by)
  show "sorted_wrt (\<lambda>a b. localeCompare h (fst a) (fst b) \<le> 0) (sort_by (entry_cmp h) es)"
    using sorted_entries [OF assms, of es] by (simp add: entry_cmp_def)
  show "filter (\<lambda>e. localeCompare h (fst e) k = 0) (sort_by (entry_cmp h) es) =
        filter (\<lambda>e. localeCompare h (fst e) k = 0) es" for k
    using assms by (rule filter_sort_by_tied)
qed

lemma collate_a_B: "collate ''a'' ''B'' = - 1" "collate ''B'' ''a'' = 1" "collate ''B'' ''B'' = 0" "collate ''a'' ''a'' = 0"
  by (simp_all add: collate_def collation_key_def ce_char_def)

text \<open>Claim C7, the theorem at the object \<^verbatim>\<open>{"B": null, "a": true}\<close> on the reference host.\<close>

theorem stableStringify_key_order_witness:
  "consistent (localeCompare node) \<and>
   (\<exists>es'. stableStringify node (JObj [(''B'', JNull), (''a'', JBool True)]) =
            ''{'' @ join '','' (map (\<lambda>e. quote (fst e) @ '':'' @ stableStringify node (snd e)) es') @ ''}'' \<and>
          mset es' = mset [(''B'', JNull), (''a'', JBool True)] \<and>
          sorted_wrt (\<lambda>a b. localeCompare node (fst a) (fst b) \<le> 0) es' \<and>
          (\<forall>k. filter (\<lambda>e. localeCompare node (fst e) k = 0) es' =
               filter (\<lambda>e. localeCompare node (fst e) k = 0) [(''B'', JNull), (''a'', JBool True)]))"
  using stableStringify_key_order [OF consistent_node, of "[(''B'', JNull), (''a'', JBool True)]"]
    consistent_node by blast

text \<open>
  Claim C7 as stated asks for ascending code-point order. The comparator is
  \<^verbatim>\<open>localeCompare\<close>, which puts \<^verbatim>\<open>a\<close> before \<^verbatim>\<open>B\<close>: the object \<^verbatim>\<open>{"B": null, "a": true}\<close> is
  encoded with \<^verbatim>\<open>a\<close> first although \<^verbatim>\<open>B\<close> (66) is below \<^verbatim>\<open>a\<close> (97) in code-point order.
\<close>

theorem stableStringify_code_point_counterexample:
  "stableStringify node (JObj [(''B'', JNull), (''a'', JBool True)]) = ''{\"a\":true,\"B\":null}'' \<and>
   (''B'' :: string) < ''a''"
  by (simp add: sort_by_def entry_cmp_def node_def node0_def collate_a_B quote_def quote_char_def)

text \<open>The same graph with the fields written in two orders.\<close>

definition request_a :: json where
  "request_a = JObj [(''vertices'', JArr [JStr ''A'', JStr ''B'']),
                     (''edges'', JArr [JObj [(''from'', JStr ''A''), (''to'', JStr ''B'')]])]"

definition request_b :: json where
  "request_b = JObj [(''edges'', JArr [JObj [(''to'', JStr ''B''), (''from'', JStr ''A'')]]),
                     (''vertices'', JArr [JStr ''A'', JStr ''B''])]"

lemma request_a_b_equiv: "json_equiv request_a request_b"
  unfolding request_a_def request_b_def
proof (rule equiv_obj [where zs = "[(''vertices'', JArr [JStr ''A'', JStr ''B'']),
          (''edges'', JArr [JObj [(''to'', JStr ''B''), (''from'', JStr ''A'')]])]"])
  have "json_equiv (JObj [(''from'', JStr ''A''), (''to'', JStr ''B'')])
                   (JObj [(''to'', JStr ''B''), (''from'', JStr ''A'')])"
    by (rule equiv_obj [where zs = "[(''from'', JStr ''A''), (''to'', JStr ''B'')]"])
       (simp_all add: equiv_same)
  then have "json_equiv (JArr [JObj [(''from'', JStr ''A''), (''to'', JStr ''B'')]])
                        (JArr [JObj [(''to'', JStr ''B''), (''from'', JStr ''A'')]])"
    by (intro equiv_arr) simp
  then show "list_all2 (\<lambda>x z. fst x = fst z \<and> json_equiv (snd x) (snd z))
     [(''vertices'', JArr [JStr ''A'', JStr ''B'']),
      (''edges'', JArr [JObj [(''from'', JStr ''A''), (''to'', JStr ''B'')]])]
     [(''vertices'', JArr [JStr ''A'', JStr ''B'']),
      (''edges'', JArr [JObj [(''to'', JStr ''B''), (''from'', JStr ''A'')]])]"
    by (simp add: equiv_same)
  show "mset [(''vertices'', JArr [JStr ''A'', JStr ''B'']),
      (''edges'', JArr [JObj [(''to'', JStr ''B''), (''from'', JStr ''A'')]])] =
    mset [(''edges'', JArr [JObj [(''to'', JStr ''B''), (''from'', JStr ''A'')]]),
      (''vertices'', JArr [JStr ''A'', JStr ''B''])]"
    by simp
qed

lemma collate_request_keys:
  "collate ''vertices'' ''edges'' \<noteq> 0" "collate ''edges'' ''vertices'' \<noteq> 0"
  "collate ''from'' ''to'' \<noteq> 0" "collate ''to'' ''from'' \<noteq> 0"
  by (simp_all add: collate_def collation_key_def ce_char_def)

text \<open>U+00E4 and its canonical decomposition, as UTF-8.\<close>

definition a_umlaut :: string where
  "a_umlaut = [CHR 0xC3, CHR 0xA4]"
definition a_diaeresis :: string where
  "a_diaeresis = [CHR ''a'', CHR 0xCC, CHR 0x88]"

lemma collate_umlaut: "collate a_umlaut a_diaeresis = 0" "collate a_diaeresis a_umlaut = 0"
  by (simp_all add: collate_def collation_key_def ce_char_def a_umlaut_def a_diaeresis_def)

subsection \<open>Requests that differ in the order of their fields\<close>

text \<open>What the handler reads of a value does not depend on the order of object entries.\<close>

lemma equiv_prim:
  "json_equiv v w \<Longrightarrow> (\<forall>vs. v \<noteq> JArr vs) \<Longrightarrow> (\<forall>es. v \<noteq> JObj es) \<Longrightarrow> w = v"
  by (erule json_equiv.cases) auto

lemma equiv_prim_right:
  "json_equiv v w \<Longrightarrow> (\<forall>vs. w \<noteq> JArr vs) \<Longrightarrow> (\<forall>es. w \<noteq> JObj es) \<Longrightarrow> v = w"
  by (erule json_equiv.cases) auto

lemma equiv_null: "json_equiv v w \<Longrightarrow> v = JNull \<longleftrightarrow> w = JNull"
  by (erule json_equiv.cases) auto

lemma equiv_arrD:
  "json_equiv (JArr vs) w \<Longrightarrow> \<exists>ws. w = JArr ws \<and> list_all2 json_equiv vs ws"
  by (erule json_equiv.cases) (auto simp: list.rel_refl equiv_same)

lemma equiv_arr_rightD: "json_equiv v (JArr ws) \<Longrightarrow> \<exists>vs. v = JArr vs"
  by (erule json_equiv.cases) auto

lemma equiv_objD:
  "json_equiv (JObj xs) w \<Longrightarrow>
   \<exists>zs ys. w = JObj ys \<and> list_all2 (\<lambda>x z. fst x = fst z \<and> json_equiv (snd x) (snd z)) xs zs \<and>
           mset zs = mset ys"
proof (erule json_equiv.cases)
  fix v assume "JObj xs = v" "w = v"
  moreover have "list_all2 (\<lambda>x z. fst x = fst z \<and> json_equiv (snd x) (snd z)) xs xs"
    by (simp add: list.rel_refl equiv_same)
  ultimately show ?thesis by blast
qed auto

lemma js_String_equiv: "json_equiv v w \<Longrightarrow> js_String h v = js_String h w"
proof (induction rule: json_equiv.induct)
  case (equiv_arr vs ws)
  then have "map (\<lambda>v. if v = JNull then [] else js_String h v) vs =
             map (\<lambda>v. if v = JNull then [] else js_String h v) ws"
    by (induction rule: list_all2_induct) (auto dest: equiv_null)
  then show ?case by simp
qed simp_all

lemma related_keys:
  "list_all2 (\<lambda>x z. fst x = fst z \<and> P (snd x) (snd z)) xs zs \<Longrightarrow> map fst xs = map fst zs"
  by (induction rule: list_all2_induct) auto

lemma related_map_of:
  "list_all2 (\<lambda>x z. fst x = fst z \<and> P (snd x) (snd z)) xs zs \<Longrightarrow>
   rel_option P (map_of xs k) (map_of zs k)"
  by (induction rule: list_all2_induct) auto

lemma permuted_map_of:
  assumes "mset zs = mset ys" and "distinct (map fst zs)"
  shows "map_of zs = map_of ys"
proof -
  from assms(1) have "mset (map fst zs) = mset (map fst ys)" by (metis mset_map)
  with assms(2) have "distinct (map fst ys)" by (metis mset_eq_imp_distinct_iff)
  moreover from assms(1) have "set zs = set ys" by (rule mset_eq_setD)
  ultimately show ?thesis using assms(2) by (simp add: map_of_inject_set)
qed

lemma wf_get_prop: "wf_json v \<Longrightarrow> get_prop v k = Some x \<Longrightarrow> wf_json x"
  by (cases v) (auto dest: map_of_SomeD)

lemma get_prop_equiv:
  assumes "json_equiv v w" and "wf_json v"
  shows "rel_option json_equiv (get_prop v k) (get_prop w k)"
proof (cases v)
  case (JObj xs)
  with assms(1) obtain zs ys where w: "w = JObj ys"
    and rel: "list_all2 (\<lambda>x z. fst x = fst z \<and> json_equiv (snd x) (snd z)) xs zs"
    and m: "mset zs = mset ys"
    by (auto dest: equiv_objD)
  from assms(2) JObj related_keys [OF rel] have "distinct (map fst zs)" by simp
  with m have "map_of zs = map_of ys" by (rule permuted_map_of)
  with related_map_of [OF rel, of k] JObj w show ?thesis by simp
next
  case (JArr vs)
  with assms(1) show ?thesis by (auto dest: equiv_arrD)
qed (use assms(1) in \<open>auto dest: equiv_prim\<close>)

lemma nullish_equiv:
  assumes "rel_option json_equiv a b" and "rel_option json_equiv c d"
  shows "rel_option json_equiv (nullish a c) (nullish b d)"
  using assms by (cases a; cases b) (auto simp: nullish_def dest: equiv_null)

lemma is_object_equiv: "json_equiv v w \<Longrightarrow> is_object v = is_object w"
  by (erule json_equiv.cases) auto

lemma destructure_equiv:
  assumes "json_equiv e e'" and "wf_json e"
  shows "destructure h e = destructure h e'"
proof (cases e)
  case (JArr vs)
  with assms(1) obtain ws where ws: "e' = JArr ws" "list_all2 json_equiv vs ws"
    by (auto dest: equiv_arrD)
  show ?thesis
  proof (cases "length vs = 2")
    case True
    then obtain a b where vs: "vs = [a, b]"
      by (cases vs; cases "tl vs") auto
    with ws(2) obtain a' b' where "ws = [a', b']" "json_equiv a a'" "json_equiv b b'"
      by (auto simp: list_all2_Cons1)
    with JArr ws(1) vs show ?thesis
      by (simp add: destructure_def js_String_equiv [of a a'] js_String_equiv [of b b'])
  next
    case False
    moreover from ws(2) have "length ws = length vs" by (simp add: list_all2_lengthD)
    ultimately have "destructure h (JArr vs) = None" "destructure h (JArr ws) = None"
      by (auto simp: destructure_def nullish_def split: list.splits)
    with JArr ws(1) show ?thesis by simp
  qed
next
  case (JObj xs)
  with assms(1) obtain ys where e': "e' = JObj ys" by (auto dest: equiv_objD)
  let ?from = "nullish (get_prop e ''from'') (nullish (get_prop e ''source'') (get_prop e ''u''))"
  let ?to = "nullish (get_prop e ''to'') (nullish (get_prop e ''target'') (get_prop e ''v''))"
  let ?from' = "nullish (get_prop e' ''from'') (nullish (get_prop e' ''source'') (get_prop e' ''u''))"
  let ?to' = "nullish (get_prop e' ''to'') (nullish (get_prop e' ''target'') (get_prop e' ''v''))"
  have f: "rel_option json_equiv ?from ?from'" and t: "rel_option json_equiv ?to ?to'"
    by (intro nullish_equiv get_prop_equiv assms)+
  have d: "destructure h e = (if ?from \<noteq> None \<and> ?to \<noteq> None
              then Some (js_String h (the ?from), js_String h (the ?to)) else None)"
    and d': "destructure h e' = (if ?from' \<noteq> None \<and> ?to' \<noteq> None
              then Some (js_String h (the ?from'), js_String h (the ?to')) else None)"
    using JObj e' by (simp_all add: destructure_def Let_def)
  from f t show ?thesis unfolding d d'
    by (cases ?from; cases ?from'; cases ?to; cases ?to') (auto dest: js_String_equiv)
qed (use assms(1) in \<open>auto dest: equiv_prim\<close>)

lemma map_edges_equiv:
  "list_all2 json_equiv es es' \<Longrightarrow> \<forall>e \<in> set es. wf_json e \<Longrightarrow> map_edges h i es = map_edges h i es'"
proof (induction arbitrary: i rule: list_all2_induct)
  case Nil
  then show ?case by simp
next
  case (Cons e es e' es')
  then have "destructure h e = destructure h e'" by (simp add: destructure_equiv)
  with Cons show ?case by (simp split: option.splits)
qed

text \<open>The value of an array property, as \<^verbatim>\<open>Array.isArray(x) ? x : ...\<close> sees it.\<close>

lemma array_prop_equiv:
  assumes "json_equiv raw raw'" and "wf_json raw"
  shows "(\<exists>es es'. get_prop raw k = Some (JArr es) \<and> get_prop raw' k = Some (JArr es') \<and>
            list_all2 json_equiv es es' \<and> (\<forall>e \<in> set es. wf_json e)) \<or>
         ((\<forall>es. get_prop raw k \<noteq> Some (JArr es)) \<and> (\<forall>es. get_prop raw' k \<noteq> Some (JArr es)))"
proof -
  from get_prop_equiv [OF assms, of k] show ?thesis
  proof (cases rule: option.rel_cases)
    case None
    then show ?thesis by simp
  next
    case (Some x y)
    show ?thesis
    proof (cases "\<exists>es. x = JArr es")
      case True
      then obtain es where es: "x = JArr es" ..
      with Some obtain es' where "y = JArr es'" "list_all2 json_equiv es es'"
        by (auto dest: equiv_arrD)
      moreover from wf_get_prop [OF assms(2) Some(1)] es have "\<forall>e \<in> set es. wf_json e" by simp
      ultimately show ?thesis using Some es by simp
    next
      case False
      with Some have "\<forall>es. y \<noteq> JArr es" by (auto dest: equiv_arr_rightD)
      with False Some show ?thesis by simp
    qed
  qed
qed

lemma parseInput_equiv:
  assumes "json_equiv raw raw'" and "wf_json raw"
  shows "parseInput h raw = parseInput h raw'"
proof -
  have obj: "is_object raw = is_object raw'" using assms(1) by (rule is_object_equiv)
  have vs: "(case get_prop raw ''vertices'' of Some (JArr vs) \<Rightarrow> map (js_String h) vs | _ \<Rightarrow> []) =
            (case get_prop raw' ''vertices'' of Some (JArr vs) \<Rightarrow> map (js_String h) vs | _ \<Rightarrow> [])"
    using array_prop_equiv [OF assms, of "''vertices''"]
  proof (elim disjE exE conjE)
    fix es es'
    assume "get_prop raw ''vertices'' = Some (JArr es)" "get_prop raw' ''vertices'' = Some (JArr es')"
      and rel: "list_all2 json_equiv es es'"
    moreover from rel have "map (js_String h) es = map (js_String h) es'"
      by (induction rule: list_all2_induct) (auto dest: js_String_equiv)
    ultimately show ?thesis by simp
  next
    assume "\<forall>es. get_prop raw ''vertices'' \<noteq> Some (JArr es)" "\<forall>es. get_prop raw' ''vertices'' \<noteq> Some (JArr es)"
    then show ?thesis by (auto split: option.splits json.splits)
  qed
  from array_prop_equiv [OF assms, of "''edges''"] show ?thesis
  proof (elim disjE exE conjE)
    fix es es'
    assume e: "get_prop raw ''edges'' = Some (JArr es)" "get_prop raw' ''edges'' = Some (JArr es')"
      and rel: "list_all2 json_equiv es es'" and wf: "\<forall>e \<in> set es. wf_json e"
    from rel have "es = [] \<longleftrightarrow> es' = []" by auto
    moreover have "map_edges h 0 es = map_edges h 0 es'" using rel wf by (rule map_edges_equiv)
    ultimately show ?thesis using e obj vs by (auto simp: parseInput_def Let_def split: sum.splits)
  next
    assume "\<forall>es. get_prop raw ''edges'' \<noteq> Some (JArr es)" "\<forall>es. get_prop raw' ''edges'' \<noteq> Some (JArr es)"
    then have "parseInput h raw = (if \<not> is_object raw
          then Inl (ClientError ''Input must be a JSON object with an \"edges\" property.'')
          else Inl (ClientError ''Input must include a non-empty \"edges\" array.''))"
      and "parseInput h raw' = (if \<not> is_object raw'
          then Inl (ClientError ''Input must be a JSON object with an \"edges\" property.'')
          else Inl (ClientError ''Input must include a non-empty \"edges\" array.''))"
      by (auto simp: parseInput_def split: option.splits json.splits)
    with obj show ?thesis by simp
  qed
qed

lemma parse_supplied_equiv:
  assumes "json_equiv v v'" and "toNumber h v = toNumber h v'"
  shows "parse_supplied h d v = parse_supplied h d v'"
proof (cases "(\<exists>vs. v = JArr vs) \<or> (\<exists>es. v = JObj es)")
  case False
  with assms(1) have "v' = v" by (auto dest: equiv_prim)
  then show ?thesis by simp
next
  case True
  with assms(1) have "(\<exists>vs. v' = JArr vs) \<or> (\<exists>es. v' = JObj es)"
    by (auto dest: equiv_arrD equiv_objD)
  with True assms(2) js_String_equiv [OF assms(1), of h] show ?thesis
    by (auto simp: parse_supplied_def split: option_type.splits)
qed

lemma parseOptions_loop_equiv:
  assumes "json_equiv raw raw'" and "wf_json raw"
    and "\<forall>v w. json_equiv v w \<longrightarrow> toNumber h v = toNumber h w"
  shows "parseOptions_loop h raw ds parsed = parseOptions_loop h raw' ds parsed"
proof (induction ds arbitrary: parsed)
  case Nil
  then show ?case by simp
next
  case (Cons d ds)
  from get_prop_equiv [OF assms(1,2), of "key d"] show ?case
  proof (cases rule: option.rel_cases)
    case None
    with Cons show ?thesis by simp
  next
    case (Some x y)
    have skip: "x = JNull \<or> x = JStr [] \<longleftrightarrow> y = JNull \<or> y = JStr []"
      using Some(3) by (auto dest: equiv_prim equiv_prim_right)
    from Some(3) assms(3) have "parse_supplied h d x = parse_supplied h d y"
      by (intro parse_supplied_equiv) auto
    with Some skip Cons show ?thesis by (auto split: sum.splits)
  qed
qed

lemma prepare_equiv:
  assumes "json_equiv rawInput rawInput'" and "wf_json rawInput"
    and "json_equiv rawOptions rawOptions'" and "wf_json rawOptions"
    and "\<forall>v w. json_equiv v w \<longrightarrow> toNumber h v = toNumber h w"
  shows "prepare h a rawInput rawOptions = prepare h a rawInput' rawOptions'"
  unfolding prepare_def parseOptions_def
    parseInput_equiv [OF assms(1,2), of h] parseOptions_loop_equiv [OF assms(3,4,5)] ..

lemma default_prop_equiv:
  assumes "json_equiv p p'" and "wf_json p"
  shows "json_equiv (the (nullish (get_prop p k) (Some (JObj [])))) (the (nullish (get_prop p' k) (Some (JObj [])))) \<and>
         wf_json (the (nullish (get_prop p k) (Some (JObj []))))"
proof
  have "rel_option json_equiv (nullish (get_prop p k) (Some (JObj []))) (nullish (get_prop p' k) (Some (JObj [])))"
    by (intro nullish_equiv get_prop_equiv assms) (simp add: equiv_same)
  moreover have "nullish (get_prop p k) (Some (JObj [])) \<noteq> None" by (simp add: nullish_def)
  ultimately show "json_equiv (the (nullish (get_prop p k) (Some (JObj [])))) (the (nullish (get_prop p' k) (Some (JObj []))))"
    by (auto elim: option.rel_cases)
  show "wf_json (the (nullish (get_prop p k) (Some (JObj []))))"
    using wf_get_prop [OF assms(2), of k] by (auto simp: nullish_def)
qed

lemma handleRunAlgorithm_equiv:
  assumes "parseJson h b = Inr p" and "parseJson h b' = Inr p'"
    and "json_equiv p p'" and "wf_json p"
    and "\<forall>v w. json_equiv v w \<longrightarrow> toNumber h v = toNumber h w"
  shows "handleRunAlgorithm h rnds now st b = handleRunAlgorithm h rnds now st b'"
proof -
  have "(case get_prop p ''algorithmId'' of Some (JStr s) \<Rightarrow> (if s = [] then None else Some s) | _ \<Rightarrow> None) =
        (case get_prop p' ''algorithmId'' of Some (JStr s) \<Rightarrow> (if s = [] then None else Some s) | _ \<Rightarrow> None)"
    using get_prop_equiv [OF assms(3,4), of "''algorithmId''"]
  proof (cases rule: option.rel_cases)
    case None
    then show ?thesis by simp
  next
    case (Some x y)
    show ?thesis
    proof (cases "\<exists>s. x = JStr s")
      case True
      with Some have "y = x" by (auto dest: equiv_prim)
      with Some show ?thesis by simp
    next
      case False
      with Some have "\<nexists>s. y = JStr s" by (auto dest: equiv_prim_right)
      with False Some show ?thesis by (auto split: json.splits)
    qed
  qed
  moreover have "prepare h a (the (nullish (get_prop p ''input'') (Some (JObj []))))
                             (the (nullish (get_prop p ''options'') (Some (JObj [])))) =
                 prepare h a (the (nullish (get_prop p' ''input'') (Some (JObj []))))
                             (the (nullish (get_prop p' ''options'') (Some (JObj []))))" for a
    using default_prop_equiv [OF assms(3,4), of "''input''"] default_prop_equiv [OF assms(3,4), of "''options''"]
      assms(5) by (intro prepare_equiv) auto
  ultimately show ?thesis using assms(1,2)
    by (simp add: handleRunAlgorithm_def cong: option.case_cong)
qed

text \<open>\<^verbatim>\<open>Number(value)\<close> does not see the order of keys: an object converts through
  \<^verbatim>\<open>[object Object]\<close>, an array through the strings of its elements.\<close>

definition key_order_blind :: "(json \<Rightarrow> jsnum) \<Rightarrow> bool" where
  "key_order_blind f \<longleftrightarrow> (\<forall>v w. json_equiv v w \<longrightarrow> f v = f w)"

lemma to_number_equiv:
  assumes "json_equiv v w"
  shows "to_number (js_String h) v = to_number (js_String h) w"
proof (cases "(\<exists>vs. v = JArr vs) \<or> (\<exists>es. v = JObj es)")
  case False
  with assms have "w = v" by (auto dest: equiv_prim)
  then show ?thesis by simp
next
  case True
  with assms have "(\<exists>vs. w = JArr vs) \<or> (\<exists>es. w = JObj es)"
    by (auto dest: equiv_arrD equiv_objD)
  with True js_String_equiv [OF assms, of h] show ?thesis
    by (auto simp: to_number_def)
qed

lemma key_order_blind_node: "key_order_blind (toNumber node)"
  by (simp add: key_order_blind_def node_def to_number_equiv)

text \<open>Two \<^verbatim>\<open>/run\<close> bodies for the graph A-B whose input carries, next to \<^verbatim>\<open>edges\<close>, the two
  keys U+00E4 and a + U+0308, with all fields in two different orders.\<close>

definition tied_body_a :: string where
  "tied_body_a = ''{\"algorithmId\":\"karger-min-cut\",\"input\":{\"'' @ a_umlaut @ ''\":null,\"'' @
     a_diaeresis @ ''\":true,\"edges\":[[\"A\",\"B\"]]}}''"

definition tied_body_b :: string where
  "tied_body_b = ''{\"input\":{\"edges\":[[\"A\",\"B\"]],\"'' @ a_diaeresis @ ''\":true,\"'' @
     a_umlaut @ ''\":null},\"algorithmId\":\"karger-min-cut\"}''"

definition tied_input_a :: json where
  "tied_input_a = JObj [(a_umlaut, JNull), (a_diaeresis, JBool True), (''edges'', JArr [JArr [JStr ''A'', JStr ''B'']])]"

definition tied_input_b :: json where
  "tied_input_b = JObj [(''edges'', JArr [JArr [JStr ''A'', JStr ''B'']]), (a_diaeresis, JBool True), (a_umlaut, JNull)]"

definition tied_payload_a :: json where
  "tied_payload_a = JObj [(''algorithmId'', JStr ''karger-min-cut''), (''input'', tied_input_a)]"

definition tied_payload_b :: json where
  "tied_payload_b = JObj [(''input'', tied_input_b), (''algorithmId'', JStr ''karger-min-cut'')]"

lemma parse_tied_bodies:
  "parseJson node tied_body_a = Inr tied_payload_a" "parseJson node tied_body_b = Inr tied_payload_b"
  by code_simp+

lemma tied_inputs_equiv: "json_equiv tied_input_a tied_input_b"
  unfolding tied_input_a_def tied_input_b_def
  by (rule equiv_obj [where zs = "[(a_umlaut, JNull), (a_diaeresis, JBool True),
        (''edges'', JArr [JArr [JStr ''A'', JStr ''B'']])]"])
     (simp_all add: equiv_same)

lemma tied_payloads_equiv: "json_equiv tied_payload_a tied_payload_b"
  unfolding tied_payload_a_def tied_payload_b_def
  by (rule equiv_obj [where zs = "[(''algorithmId'', JStr ''karger-min-cut''), (''input'', tied_input_b)]"])
     (simp_all add: equiv_same tied_inputs_equiv)

lemma wf_tied_payload: "wf_json tied_payload_a"
  by (simp add: tied_payload_a_def tied_input_a_def a_umlaut_def a_diaeresis_def)

text \<open>
  Claim C1, as the code has it. Two values that are equal up to the order of object entries
  have the same canonical encoding, and the fingerprints of (algorithmId, input, options)
  agree, provided the comparator of the host is consistent and no object has two different
  keys that the comparator reports as equal. For requests no such proviso is needed: the
  handler fingerprints the validated input and options that \<^verbatim>\<open>prepare\<close> returns, not the raw
  fields. Two request bodies that \<^verbatim>\<open>JSON.parse\<close> maps to payloads equal up to the order of
  object entries are prepared to the same input and options, hence looked up and stored
  under the same fingerprint, and \<^verbatim>\<open>handleRunAlgorithm\<close> answers both alike on every store.
\<close>

theorem fingerprint_order_independent:
  "(consistent (localeCompare h) \<longrightarrow> json_equiv inp inp' \<longrightarrow> wf_json inp \<longrightarrow> keys_apart h inp \<longrightarrow>
    json_equiv opts opts' \<longrightarrow> wf_json opts \<longrightarrow> keys_apart h opts \<longrightarrow>
      stableStringify h inp = stableStringify h inp' \<and>
      createCacheKey h aid inp opts = createCacheKey h aid inp' opts') \<and>
   (parseJson h b = Inr p \<longrightarrow> parseJson h b' = Inr p' \<longrightarrow> json_equiv p p' \<longrightarrow> wf_json p \<longrightarrow>
    key_order_blind (toNumber h) \<longrightarrow>
      prepare h a (the (nullish (get_prop p ''input'') (Some (JObj []))))
                  (the (nullish (get_prop p ''options'') (Some (JObj [])))) =
      prepare h a (the (nullish (get_prop p' ''input'') (Some (JObj []))))
                  (the (nullish (get_prop p' ''options'') (Some (JObj [])))) \<and>
      (case prepare h a (the (nullish (get_prop p ''input'') (Some (JObj []))))
                        (the (nullish (get_prop p ''options'') (Some (JObj [])))) of
         Inl err \<Rightarrow> None
       | Inr prepared \<Rightarrow> Some (createCacheKey h aid (input_json (fst prepared)) (JObj (snd prepared)))) =
      (case prepare h a (the (nullish (get_prop p' ''input'') (Some (JObj []))))
                        (the (nullish (get_prop p' ''options'') (Some (JObj [])))) of
         Inl err \<Rightarrow> None
       | Inr prepared \<Rightarrow> Some (createCacheKey h aid (input_json (fst prepared)) (JObj (snd prepared)))) \<and>
      handleRunAlgorithm h rnds now st b = handleRunAlgorithm h rnds now st b')"
proof (intro conjI impI)
  assume c: "consistent (localeCompare h)"
    and i: "json_equiv inp inp'" "wf_json inp" "keys_apart h inp"
    and o: "json_equiv opts opts'" "wf_json opts" "keys_apart h opts"
  from c i show "stableStringify h inp = stableStringify h inp'" by (rule stableStringify_equiv)
  moreover from c o have "stableStringify h opts = stableStringify h opts'" by (rule stableStringify_equiv)
  ultimately show "createCacheKey h aid inp opts = createCacheKey h aid inp' opts'"
    by (simp add: createCacheKey_def)
next
  assume p: "parseJson h b = Inr p" "parseJson h b' = Inr p'" and e: "json_equiv p p'" "wf_json p"
    and "key_order_blind (toNumber h)"
  then have n: "\<forall>v w. json_equiv v w \<longrightarrow> toNumber h v = toNumber h w"
    by (simp add: key_order_blind_def)
  from default_prop_equiv [OF e, of "''input''"] default_prop_equiv [OF e, of "''options''"] n
  have same: "prepare h a (the (nullish (get_prop p ''input'') (Some (JObj []))))
                  (the (nullish (get_prop p ''options'') (Some (JObj [])))) =
      prepare h a (the (nullish (get_prop p' ''input'') (Some (JObj []))))
                  (the (nullish (get_prop p' ''options'') (Some (JObj []))))"
    by (intro prepare_equiv) auto
  then show "prepare h a (the (nullish (get_prop p ''input'') (Some (JObj []))))
                  (the (nullish (get_prop p ''options'') (Some (JObj [])))) =
      prepare h a (the (nullish (get_prop p' ''input'') (Some (JObj []))))
                  (the (nullish (get_prop p' ''options'') (Some (JObj []))))" .
  show "(case prepare h a (the (nullish (get_prop p ''input'') (Some (JObj []))))
                        (the (nullish (get_prop p ''options'') (Some (JObj [])))) of
         Inl err \<Rightarrow> None
       | Inr prepared \<Rightarrow> Some (createCacheKey h aid (input_json (fst prepared)) (JObj (snd prepared)))) =
      (case prepare h a (the (nullish (get_prop p' ''input'') (Some (JObj []))))
                        (the (nullish (get_prop p' ''options'') (Some (JObj [])))) of
         Inl err \<Rightarrow> None
       | Inr prepared \<Rightarrow> Some (createCacheKey h aid (input_json (fst prepared)) (JObj (snd prepared))))"
    unfolding same ..
  from p e n show "handleRunAlgorithm h rnds now st b = handleRunAlgorithm h rnds now st b'"
    by (rule handleRunAlgorithm_equiv)
qed

text \<open>Claim C1, the theorem on the reference host: the encoder at the graph written in two
  field orders, the request path at the two bodies with tied keys.\<close>

theorem fingerprint_order_independent_witness:
  "(consistent (localeCompare node) \<and> json_equiv request_a request_b \<and> wf_json request_a \<and>
    keys_apart node request_a \<and> json_equiv (JObj []) (JObj []) \<and> wf_json (JObj []) \<and>
    keys_apart node (JObj []) \<and>
    stableStringify node request_a = stableStringify node request_b \<and>
    createCacheKey node ''karger-min-cut'' request_a (JObj []) =
    createCacheKey node ''karger-min-cut'' request_b (JObj [])) \<and>
   (parseJson node tied_body_a = Inr tied_payload_a \<and> parseJson node tied_body_b = Inr tied_payload_b \<and>
    json_equiv tied_payload_a tied_payload_b \<and> wf_json tied_payload_a \<and> key_order_blind (toNumber node) \<and>
    prepare node KargerMinCutAlgorithm
      (the (nullish (get_prop tied_payload_a ''input'') (Some (JObj []))))
      (the (nullish (get_prop tied_payload_a ''options'') (Some (JObj [])))) =
    prepare node KargerMinCutAlgorithm
      (the (nullish (get_prop tied_payload_b ''input'') (Some (JObj []))))
      (the (nullish (get_prop tied_payload_b ''options'') (Some (JObj [])))) \<and>
    (case prepare node KargerMinCutAlgorithm
            (the (nullish (get_prop tied_payload_a ''input'') (Some (JObj []))))
            (the (nullish (get_prop tied_payload_a ''options'') (Some (JObj [])))) of
       Inl err \<Rightarrow> None
     | Inr prepared \<Rightarrow>
         Some (createCacheKey node ''karger-min-cut'' (input_json (fst prepared)) (JObj (snd prepared)))) =
    (case prepare node KargerMinCutAlgorithm
            (the (nullish (get_prop tied_payload_b ''input'') (Some (JObj []))))
            (the (nullish (get_prop tied_payload_b ''options'') (Some (JObj [])))) of
       Inl err \<Rightarrow> None
     | Inr prepared \<Rightarrow>
         Some (createCacheKey node ''karger-min-cut'' (input_json (fst prepared)) (JObj (snd prepared)))) \<and>
    handleRunAlgorithm node first_edge ''2026-02-02T00:00:00.000Z'' empty_store tied_body_a =
    handleRunAlgorithm node first_edge ''2026-02-02T00:00:00.000Z'' empty_store tied_body_b)"
proof -
  have w: "wf_json request_a" by (simp add: request_a_def)
  have k: "keys_apart node request_a"
    using collate_request_keys by (simp add: request_a_def node_def node0_def)
  have e: "json_equiv (JObj []) (JObj [])" by (rule equiv_same)
  have w0: "wf_json (JObj [])" "keys_apart node (JObj [])" by simp_all
  from fingerprint_order_independent [of node request_a request_b "JObj []" "JObj []"
      "''karger-min-cut''" tied_body_a tied_payload_a tied_body_b tied_payload_b
      KargerMinCutAlgorithm first_edge "''2026-02-02T00:00:00.000Z''" empty_store]
    consistent_node request_a_b_equiv w k e w0 parse_tied_bodies tied_payloads_equiv wf_tied_payload
    key_order_blind_node
  show ?thesis by blast
qed

text \<open>
  Claim C1 as stated covers every pair of values. An object whose two keys are U+00E4 and its
  canonical decomposition has keys that \<^verbatim>\<open>localeCompare\<close> reports as equal; the stable sort
  leaves them in insertion order, so the two insertion orders give two encodings.
\<close>

theorem stableStringify_tied_keys_counterexample:
  "json_equiv (JObj [(a_umlaut, JNull), (a_diaeresis, JBool True)])
              (JObj [(a_diaeresis, JBool True), (a_umlaut, JNull)]) \<and>
   wf_json (JObj [(a_umlaut, JNull), (a_diaeresis, JBool True)]) \<and>
   localeCompare node a_umlaut a_diaeresis = 0 \<and>
   stableStringify node (JObj [(a_umlaut, JNull), (a_diaeresis, JBool True)]) \<noteq>
   stableStringify node (JObj [(a_diaeresis, JBool True), (a_umlaut, JNull)])"
proof -
  have 1: "json_equiv (JObj [(a_umlaut, JNull), (a_diaeresis, JBool True)])
              (JObj [(a_diaeresis, JBool True), (a_umlaut, JNull)])"
    by (rule equiv_obj [where zs = "[(a_umlaut, JNull), (a_diaeresis, JBool True)]"])
       (simp_all add: equiv_same)
  have 2: "wf_json (JObj [(a_umlaut, JNull), (a_diaeresis, JBool True)])"
    by (simp add: a_umlaut_def a_diaeresis_def)
  have 3: "stableStringify node (JObj [(a_umlaut, JNull), (a_diaeresis, JBool True)]) =
      ''{'' @ quote a_umlaut @ '':null,'' @ quote a_diaeresis @ '':true}''"
    by (simp add: sort_by_def entry_cmp_def node_def node0_def collate_umlaut)
  have 4: "stableStringify node (JObj [(a_diaeresis, JBool True), (a_umlaut, JNull)]) =
      ''{'' @ quote a_diaeresis @ '':true,'' @ quote a_umlaut @ '':null}''"
    by (simp add: sort_by_def entry_cmp_def node_def node0_def collate_umlaut)
  have 5: "stableStringify node (JObj [(a_umlaut, JNull), (a_diaeresis, JBool True)]) \<noteq>
    stableStringify node (JObj [(a_diaeresis, JBool True), (a_umlaut, JNull)])"
    unfolding 3 4 by (simp add: quote_def quote_char_def a_umlaut_def a_diaeresis_def)
  have 6: "localeCompare node a_umlaut a_diaeresis = 0"
    by (simp add: node_def node0_def collate_umlaut)
  from 1 2 5 6 show ?thesis by blast
qed

section \<open>The contraction run\<close>

subsection \<open>Edge endpoints stay keys of the component map\<close>











subsection \<open>The cut of a two-group outcome\<close>








subsection \<open>A merge label that is already a vertex name\<close>

text \<open>
  The label of a merged group is built from the member names and the step number; nothing
  keeps it apart from the names of the vertices. With vertices \<^verbatim>\<open>A\<close>, \<^verbatim>\<open>B\<close> and \<^verbatim>\<open>A|B#1\<close>, merging
  A and B in step 1 stores the merged set under the key \<^verbatim>\<open>A|B#1\<close>, where the singleton of the
  third vertex was.
\<close>

definition lost_vertex_raw :: json where
  "lost_vertex_raw =
     JObj [(''vertices'', JArr [JStr ''A'', JStr ''B'', JStr ''A|B#1'']),
           (''edges'', JArr [JArr [JStr ''A'', JStr ''B'']])]"

definition lost_vertex_input :: KargerInput where
  "lost_vertex_input = \<lparr> vertices = [''A'', ''B'', ''A|B#1''], edges = [(''A'', ''B'')] \<rparr>"

text \<open>
  Claim C5 at the input \<^verbatim>\<open>{"vertices": ["A", "B", "A|B#1"], "edges": [["A", "B"]]}\<close>, for every
  draw: the input is accepted, the loop ends with one group, and the run returns cut 0 with
  first partition \<^verbatim>\<open>[A, B]\<close>, which lacks the vertex \<^verbatim>\<open>A|B#1\<close>.
\<close>

theorem singleRun_degenerate_loses_vertex:
  "parseInput node lost_vertex_raw = Inr lost_vertex_input \<and>
   contract rnd 0 (edges lost_vertex_input) (initial_components (vertices lost_vertex_input)) =
     Inr ([], [(''A|B#1'', [''A'', ''B''])]) \<and>
   singleRun rnd lost_vertex_input = Inr \<lparr> cut = 0, partitions = ([''A'', ''B''], []) \<rparr> \<and>
   ''A|B#1'' \<in> set (vertices lost_vertex_input) \<and> ''A|B#1'' \<notin> set [''A'', ''B'']"
proof -
  have p: "parseInput node lost_vertex_raw = Inr lost_vertex_input"
    by code_simp
  have i: "initial_components (vertices lost_vertex_input) =
      [(''A'', [''A'']), (''B'', [''B'']), (''A|B#1'', [''A|B#1''])]"
    by code_simp
  have f: "findRepresentative ''A'' [(''A'', [''A'']), (''B'', [''B'']), (''A|B#1'', [''A|B#1''])] = Inr ''A''"
    "findRepresentative ''B'' [(''A'', [''A'']), (''B'', [''B'']), (''A|B#1'', [''A|B#1''])] = Inr ''B''"
    by code_simp+
  have m: "mergeComponents ''A'' ''B'' [(''A'', [''A'']), (''B'', [''B'']), (''A|B#1'', [''A|B#1''])] (Suc 0) =
      Inr (''A|B#1'', [(''A|B#1'', [''A'', ''B''])])"
    by code_simp
  have r: "relabel ''A'' ''B'' ''A|B#1'' [(''A'', ''B'')] = []"
    by code_simp
  have c: "contract rnd 0 (edges lost_vertex_input) (initial_components (vertices lost_vertex_input)) =
     Inr ([], [(''A|B#1'', [''A'', ''B''])])"
    unfolding i
    by (subst contract.simps, simp add: lost_vertex_input_def f m r, subst contract.simps, simp)
  have s: "singleRun rnd lost_vertex_input = Inr \<lparr> cut = 0, partitions = ([''A'', ''B''], []) \<rparr>"
    by (simp add: singleRun_def c finish_def)
  from p c s show ?thesis by (simp add: lost_vertex_input_def)
qed

definition collision_raw :: json where
  "collision_raw =
     JObj [(''vertices'', JArr [JStr ''A'', JStr ''B'', JStr ''A|B#1'', JStr ''C'']),
           (''edges'', JArr [JArr [JStr ''A'', JStr ''B''], JArr [JStr ''A|B#1'', JStr ''C'']])]"

definition collision_input :: KargerInput where
  "collision_input = \<lparr> vertices = [''A'', ''B'', ''A|B#1'', ''C''],
                         edges = [(''A'', ''B''), (''A|B#1'', ''C'')] \<rparr>"

text \<open>
  Claim C10 at the input with vertices \<^verbatim>\<open>A\<close>, \<^verbatim>\<open>B\<close>, \<^verbatim>\<open>A|B#1\<close>, \<^verbatim>\<open>C\<close> and edges A-B and
  (A|B#1)-C, the first draw picking A-B: the loop ends with the two groups \<^verbatim>\<open>[A, B]\<close> and
  \<^verbatim>\<open>[C]\<close>; the vertex \<^verbatim>\<open>A|B#1\<close> is in neither partition.
\<close>

theorem contract_label_collision:
  "parseInput node collision_raw = Inr collision_input \<and>
   contract (always 0) 0 (edges collision_input) (initial_components (vertices collision_input)) =
     Inr ([(''A|B#1'', ''C'')], [(''A|B#1'', [''A'', ''B'']), (''C'', [''C''])]) \<and>
   singleRun (always 0) collision_input = Inr \<lparr> cut = 0, partitions = ([''A'', ''B''], [''C'']) \<rparr> \<and>
   ''A|B#1'' \<in> set (vertices collision_input) \<and> ''A|B#1'' \<notin> set [''A'', ''B''] \<union> set [''C'']"
proof -
  have 1: "parseInput node collision_raw = Inr collision_input" by code_simp
  have 2: "contract (always 0) 0 (edges collision_input) (initial_components (vertices collision_input)) =
     Inr ([(''A|B#1'', ''C'')], [(''A|B#1'', [''A'', ''B'']), (''C'', [''C''])])" by code_simp
  have 3: "singleRun (always 0) collision_input = Inr \<lparr> cut = 0, partitions = ([''A'', ''B''], [''C'']) \<rparr>"
    by code_simp
  have 4: "''A|B#1'' \<in> set (vertices collision_input) \<and> ''A|B#1'' \<notin> set [''A'', ''B''] \<union> set [''C'']"
    by (simp add: collision_input_def)
  from 1 2 3 4 show ?thesis by blast
qed


section \<open>Registry and stored results\<close>

lemma registry_karger: "map_of registry ''karger-min-cut'' = Some KargerMinCutAlgorithm"
  by (simp add: registry_def algorithm_id_def)

lemma map_of_obj_set: "map_of (obj_set m k v) k' = (if k' = k then Some v else map_of m k')"
  by (induction m) auto

lemma augment_fields:
  "outputValue (augmentResultWithOptions r opts) = outputValue r"
  "summary (augmentResultWithOptions r opts) = summary r"
  "diagnostics (augmentResultWithOptions r opts) =
     Some (obj_set (case diagnostics r of None \<Rightarrow> [] | Some d \<Rightarrow> d) ''optionsUsed'' (JObj opts))"
  by (simp_all add: augmentResultWithOptions_def)

section \<open>Input parsing: when it fails\<close>


















subsection \<open>A null endpoint\<close>

text \<open>Two \<^verbatim>\<open>/run\<close> requests for one edge whose first endpoint is \<^verbatim>\<open>null\<close>, given under the
  alias \<^verbatim>\<open>u\<close> and under the alias \<^verbatim>\<open>from\<close>.\<close>

definition null_u_event :: LambdaFunctionUrlEvent where
  "null_u_event = \<lparr> http_method = Some ''POST'', http_path = Some ''/run'',
     event_body = Some ''{\"algorithmId\":\"karger-min-cut\",\"input\":{\"edges\":[{\"u\":null,\"to\":\"b\"}]},\"options\":{\"iterations\":1}}'' \<rparr>"

definition null_from_event :: LambdaFunctionUrlEvent where
  "null_from_event = \<lparr> http_method = Some ''POST'', http_path = Some ''/run'',
     event_body = Some ''{\"algorithmId\":\"karger-min-cut\",\"input\":{\"edges\":[{\"from\":null,\"to\":\"b\"}]},\"options\":{\"iterations\":1}}'' \<rparr>"

text \<open>
  Claim C4 at the input \<^verbatim>\<open>{"edges": [{"u": null, "to": "b"}]}\<close>. The edge supplies no first
  endpoint: \<^verbatim>\<open>u\<close> is \<^verbatim>\<open>null\<close>, and the chain \<^verbatim>\<open>e.from ?? e.source ?? e.u\<close> treats \<^verbatim>\<open>null\<close> as
  absent, which is why the same edge written with \<^verbatim>\<open>from\<close> or \<^verbatim>\<open>source\<close> is rejected. The
  chain ends in \<^verbatim>\<open>e.u\<close> and the test that follows is \<^verbatim>\<open>!== undefined\<close>, so the \<^verbatim>\<open>null\<close> of the
  last alias gets through: the input is accepted with a vertex named \<^verbatim>\<open>null\<close>, and the request
  is answered 200 where the sibling requests are answered 400.
\<close>

theorem parseInput_accepts_null_endpoint:
  "parseInput node (JObj [(''edges'', JArr [JObj [(''u'', JNull), (''to'', JStr ''b'')]])]) =
     Inr \<lparr> vertices = [''null'', ''b''], edges = [(''null'', ''b'')] \<rparr> \<and>
   parseInput node (JObj [(''edges'', JArr [JObj [(''from'', JNull), (''to'', JStr ''b'')]])]) =
     Inl (ClientError ''Edge at index 0 must be an array like [from, to] or an object with from/to keys.'') \<and>
   parseInput node (JObj [(''edges'', JArr [JObj [(''source'', JNull), (''to'', JStr ''b'')]])]) =
     Inl (ClientError ''Edge at index 0 must be an array like [from, to] or an object with from/to keys.'') \<and>
   statusCode (fst (handler node first_edge ''2026-02-02T00:00:00.000Z'' empty_store null_u_event)) = 200 \<and>
   outputValue (run_result (body (fst (handler node first_edge ''2026-02-02T00:00:00.000Z'' empty_store null_u_event)))) =
     JObj [(''minCut'', JNum (Fin 1)), (''partitions'', JArr [JArr [JStr ''null''], JArr [JStr ''b'']])] \<and>
   fst (handler node first_edge ''2026-02-02T00:00:00.000Z'' empty_store null_from_event) =
     \<lparr> statusCode = 400, headers = baseHeaders,
       body = MessageBody ''Edge at index 0 must be an array like [from, to] or an object with from/to keys.'' \<rparr>"
  by code_simp

section \<open>Iteration count\<close>









text \<open>Validated options always hold an integer between 1 and 1000, which
  \<^verbatim>\<open>resolveIterations\<close> returns: its heuristic branch is never taken after validation.\<close>

lemma parseOptions_validated:
  assumes "parseOptions h optionDefinitions rawOptions = Inr opts"
  shows "\<exists>r. opts = [(''iterations'', JNum (Fin r))] \<and> isInteger (Fin r) \<and> 1 \<le> r \<and> r \<le> 1000 \<and>
             resolveIterations input opts = nat \<lfloor>r\<rfloor>"
  using assms
  by (auto simp: parseOptions_def optionDefinitions_def parse_supplied_def check_range_def Let_def
      resolveIterations_def isInteger_def split: if_splits jsnum.splits sum.splits)

subsection \<open>The count of a request\<close>


















section \<open>Routing\<close>

lemma dropWhile_replicate: "P c \<Longrightarrow> dropWhile P (replicate n c @ xs) = dropWhile P xs"
  by (induction n) simp_all

lemma strip_slashes_append: "strip_slashes (q @ replicate n CHR ''/'') = strip_slashes q"
  by (simp add: strip_slashes_def dropWhile_replicate)

lemma strip_slashes_last:
  assumes "strip_slashes p \<noteq> []"
  shows "last (strip_slashes p) \<noteq> CHR ''/''"
proof -
  let ?xs = "dropWhile (\<lambda>c. c = CHR ''/'') (rev p)"
  from assms have ne: "?xs \<noteq> []" by (simp add: strip_slashes_def)
  then have "hd ?xs \<noteq> CHR ''/''" by (rule hd_dropWhile)
  moreover from ne have "last (rev ?xs) = hd ?xs" by (simp add: last_rev)
  ultimately show ?thesis by (simp add: strip_slashes_def)
qed

text \<open>The normalised path is \<^verbatim>\<open>/\<close> or ends in something else than a slash.\<close>

lemma normalisePath_shape:
  "normalisePath h path = ''/'' \<or> (normalisePath h path \<noteq> [] \<and> last (normalisePath h path) \<noteq> CHR ''/'')"
  by (auto simp: normalisePath_def strip_slashes_last split: option.splits)

text \<open>The string \<^verbatim>\<open>normalisePath\<close> strips: the pathname the URL parser gives, or the path itself
  in the \<^verbatim>\<open>catch\<close> branch.\<close>

definition parsed_pathname :: "host \<Rightarrow> string \<Rightarrow> string" where
  "parsed_pathname h p = (case urlPathname h p of Some pathname \<Rightarrow> pathname | None \<Rightarrow> p)"

lemma strip_slashes_exact:
  assumes "q = [] \<or> last q \<noteq> CHR ''/''"
  shows "strip_slashes (q @ replicate n CHR ''/'') = q"
proof -
  have "strip_slashes q = q"
  proof (cases "q = []")
    case True
    then show ?thesis by (simp add: strip_slashes_def)
  next
    case False
    with assms have "hd (rev q) \<noteq> CHR ''/''" by (simp add: hd_rev)
    with False have "dropWhile (\<lambda>c. c = CHR ''/'') (rev q) = rev q"
      by (cases "rev q") simp_all
    then show ?thesis by (simp add: strip_slashes_def)
  qed
  then show ?thesis by (simp add: strip_slashes_append)
qed

lemma normalisePath_exact:
  assumes "p \<noteq> []" and "parsed_pathname h p = q @ replicate n CHR ''/''"
    and "q = [] \<or> last q \<noteq> CHR ''/''"
  shows "normalisePath h (Some p) = (if q = [] then ''/'' else q)"
proof -
  have s: "strip_slashes (parsed_pathname h p) = q"
    unfolding assms(2) using assms(3) by (rule strip_slashes_exact)
  have "normalisePath h (Some p) =
      (if strip_slashes (parsed_pathname h p) = [] then ''/'' else strip_slashes (parsed_pathname h p))"
    using assms(1) by (simp add: normalisePath_def parsed_pathname_def split: option.splits)
  then show ?thesis unfolding s .
qed

text \<open>
  Claim C9, as the code has it. Route matching is done on the normalised path, and the
  normalisation removes every trailing slash: when the pathname given by the URL parser (or
  the path itself, when the parser throws) is \<open>q\<close> followed by any number of slashes, \<open>q\<close>
  not ending in a slash, the normalised path is \<open>q\<close>, or \<^verbatim>\<open>/\<close> when \<open>q\<close> is empty; an absent
  or empty path is normalised to \<^verbatim>\<open>/\<close>. Two paths that differ in their trailing slashes only
  are answered alike, and the answer is the one of the route of \<open>q\<close>: the health route, the
  algorithm list and the run route for their paths, 404 for a request that is no \<^verbatim>\<open>OPTIONS\<close>
  request and has another method or path.
\<close>

theorem normalisePath_strips_all_slashes:
  assumes "p \<noteq> []" and "p' \<noteq> []"
    and "parsed_pathname h p = q @ replicate n CHR ''/''"
    and "parsed_pathname h p' = q @ replicate n' CHR ''/''"
    and "q = [] \<or> last q \<noteq> CHR ''/''"
    and "method = (case http_method ev of None \<Rightarrow> ''GET'' | Some m \<Rightarrow> m)"
    and "b = (case event_body ev of None \<Rightarrow> [] | Some t \<Rightarrow> t)"
    and "out = handler h rnds now st (ev \<lparr> http_path := Some p \<rparr>)"
  shows "normalisePath h (Some p) = (if q = [] then ''/'' else q) \<and>
         normalisePath h (Some p') = normalisePath h (Some p) \<and>
         normalisePath h None = ''/'' \<and> normalisePath h (Some []) = ''/'' \<and>
         handler h rnds now st (ev \<lparr> http_path := Some p' \<rparr>) = out \<and>
         (method = ''GET'' \<and> q = ''/health'' \<longrightarrow>
            statusCode (fst out) = 200 \<and> body (fst out) = HealthBody \<and> snd out = st) \<and>
         (method = ''GET'' \<and> q = ''/algorithms'' \<longrightarrow>
            statusCode (fst out) = 200 \<and>
            body (fst out) = AlgorithmsBody (map (\<lambda>e. getMetadata (snd e)) registry) \<and> snd out = st) \<and>
         (method = ''POST'' \<and> q = ''/run'' \<longrightarrow>
            out = (case handleRunAlgorithm h rnds now st b of Inl err \<Rightarrow> (on_error err, st) | Inr res \<Rightarrow> res)) \<and>
         (method \<noteq> ''OPTIONS'' \<and> \<not> (method = ''GET'' \<and> (q = ''/health'' \<or> q = ''/algorithms'')) \<and>
          \<not> (method = ''POST'' \<and> q = ''/run'') \<longrightarrow>
            statusCode (fst out) = 404 \<and> body (fst out) = MessageBody ''Not Found'' \<and> snd out = st)"
proof -
  have n: "normalisePath h (Some p) = (if q = [] then ''/'' else q)"
    using assms(1,3,5) by (rule normalisePath_exact)
  have n': "normalisePath h (Some p') = (if q = [] then ''/'' else q)"
    using assms(2,4,5) by (rule normalisePath_exact)
  have e: "normalisePath h None = ''/''" "normalisePath h (Some []) = ''/''"
    by (simp_all add: normalisePath_def)
  have out: "out = dispatch h rnds now st method (if q = [] then ''/'' else q) b"
    unfolding assms(6,7,8) by (simp add: handler_def n)
  have same: "handler h rnds now st (ev \<lparr> http_path := Some p' \<rparr>) = out"
    unfolding assms(8) by (simp add: handler_def n n')
  have r1: "method = ''GET'' \<and> q = ''/health'' \<longrightarrow>
            statusCode (fst out) = 200 \<and> body (fst out) = HealthBody \<and> snd out = st"
    unfolding out by (simp add: dispatch_def buildResponse_def)
  have r2: "method = ''GET'' \<and> q = ''/algorithms'' \<longrightarrow>
            statusCode (fst out) = 200 \<and>
            body (fst out) = AlgorithmsBody (map (\<lambda>e. getMetadata (snd e)) registry) \<and> snd out = st"
    unfolding out by (simp add: dispatch_def buildResponse_def handleListAlgorithms_def)
  have r3: "method = ''POST'' \<and> q = ''/run'' \<longrightarrow>
            out = (case handleRunAlgorithm h rnds now st b of Inl err \<Rightarrow> (on_error err, st) | Inr res \<Rightarrow> res)"
    unfolding out by (simp add: dispatch_def)
  have r4: "method \<noteq> ''OPTIONS'' \<and> \<not> (method = ''GET'' \<and> (q = ''/health'' \<or> q = ''/algorithms'')) \<and>
          \<not> (method = ''POST'' \<and> q = ''/run'') \<longrightarrow>
            statusCode (fst out) = 404 \<and> body (fst out) = MessageBody ''Not Found'' \<and> snd out = st"
    unfolding out by (auto simp: dispatch_def buildResponse_def)
  from n n' e same r1 r2 r3 r4 show ?thesis by simp
qed

text \<open>A host whose URL parser rejects a path made of two or more slashes and nothing else (the
  host name would be empty), and is the reference host otherwise.\<close>

definition pathname_or_throw :: "string \<Rightarrow> string option" where
  "pathname_or_throw p = (if 2 \<le> length p \<and> set p \<subseteq> {CHR ''/''} then None else Some p)"

definition node_strict :: host where
  "node_strict = node \<lparr> urlPathname := pathname_or_throw \<rparr>"

text \<open>Claim C9, the theorem at \<^verbatim>\<open>/health\<close> and \<^verbatim>\<open>/health///\<close> on the reference host, and at the
  path \<^verbatim>\<open>//\<close> on the host that rejects it.\<close>

theorem normalisePath_strips_all_slashes_witness:
  "(''/health'' \<noteq> [] \<and> ''/health///'' \<noteq> [] \<and>
    parsed_pathname node ''/health'' = ''/health'' @ replicate 0 CHR ''/'' \<and>
    parsed_pathname node ''/health///'' = ''/health'' @ replicate 3 CHR ''/'' \<and>
    (''/health'' = [] \<or> last ''/health'' \<noteq> CHR ''/'') \<and>
    ''GET'' = (case http_method health_event of None \<Rightarrow> ''GET'' | Some m \<Rightarrow> m) \<and>
    normalisePath node (Some ''/health///'') = ''/health'' \<and>
    handler node first_edge ''2026-01-01T00:00:00.000Z'' empty_store (health_event \<lparr> http_path := Some ''/health///'' \<rparr>) =
    handler node first_edge ''2026-01-01T00:00:00.000Z'' empty_store (health_event \<lparr> http_path := Some ''/health'' \<rparr>) \<and>
    statusCode (fst (handler node first_edge ''2026-01-01T00:00:00.000Z'' empty_store
                       (health_event \<lparr> http_path := Some ''/health///'' \<rparr>))) = 200 \<and>
    body (fst (handler node first_edge ''2026-01-01T00:00:00.000Z'' empty_store
                 (health_event \<lparr> http_path := Some ''/health///'' \<rparr>))) = HealthBody) \<and>
   (''//'' \<noteq> [] \<and> urlPathname node_strict ''//'' = None \<and>
    parsed_pathname node_strict ''//'' = [] @ replicate 2 CHR ''/'' \<and>
    normalisePath node_strict (Some ''//'') = ''/'' \<and>
    statusCode (fst (handler node_strict first_edge ''2026-01-01T00:00:00.000Z'' empty_store
                       (health_event \<lparr> http_path := Some ''//'' \<rparr>))) = 404)"
proof -
  have a: "''/health'' \<noteq> []" "''/health///'' \<noteq> []" by simp_all
  have b: "parsed_pathname node ''/health'' = ''/health'' @ replicate 0 CHR ''/''"
    "parsed_pathname node ''/health///'' = ''/health'' @ replicate 3 CHR ''/''"
    by (simp_all add: parsed_pathname_def node_def node0_def numeral_3_eq_3)
  have c: "''/health'' = [] \<or> last ''/health'' \<noteq> CHR ''/''" by simp
  have m: "''GET'' = (case http_method health_event of None \<Rightarrow> ''GET'' | Some m \<Rightarrow> m)"
    by (simp add: health_event_def)
  have d: "''//'' \<noteq> []" by simp
  have t: "urlPathname node_strict ''//'' = None"
    by (simp add: node_strict_def pathname_or_throw_def)
  then have e: "parsed_pathname node_strict ''//'' = [] @ replicate 2 CHR ''/''"
    by (simp add: parsed_pathname_def numeral_2_eq_2)
  have f: "([] :: string) = [] \<or> last [] \<noteq> CHR ''/''" by simp
  from normalisePath_strips_all_slashes [OF a(2) a(1) b(2) b(1) c m refl refl,
      of first_edge "''2026-01-01T00:00:00.000Z''" empty_store]
  have first: "normalisePath node (Some ''/health///'') = ''/health'' \<and>
    handler node first_edge ''2026-01-01T00:00:00.000Z'' empty_store (health_event \<lparr> http_path := Some ''/health///'' \<rparr>) =
    handler node first_edge ''2026-01-01T00:00:00.000Z'' empty_store (health_event \<lparr> http_path := Some ''/health'' \<rparr>) \<and>
    statusCode (fst (handler node first_edge ''2026-01-01T00:00:00.000Z'' empty_store
                       (health_event \<lparr> http_path := Some ''/health///'' \<rparr>))) = 200 \<and>
    body (fst (handler node first_edge ''2026-01-01T00:00:00.000Z'' empty_store
                 (health_event \<lparr> http_path := Some ''/health///'' \<rparr>))) = HealthBody"
    by simp
  from normalisePath_strips_all_slashes [OF d d e e f m refl refl,
      of first_edge "''2026-01-01T00:00:00.000Z''" empty_store]
  have second: "normalisePath node_strict (Some ''//'') = ''/'' \<and>
    statusCode (fst (handler node_strict first_edge ''2026-01-01T00:00:00.000Z'' empty_store
                       (health_event \<lparr> http_path := Some ''//'' \<rparr>))) = 404"
    by simp
  from a b c m d t e first second show ?thesis by blast
qed

text \<open>
  Claim C9 as stated lets a path with more than one trailing slash miss its route. The
  request \<^verbatim>\<open>GET /health//\<close> is normalised to \<^verbatim>\<open>/health\<close> and answered by the health route
  with status 200.
\<close>

theorem route_double_slash_counterexample:
  "normalisePath node (Some ''/health//'') = ''/health'' \<and>
   statusCode (fst (handler node first_edge ''2026-01-01T00:00:00.000Z'' empty_store
          \<lparr> http_method = Some ''GET'', http_path = Some ''/health//'', event_body = None \<rparr>)) = 200 \<and>
   body (fst (handler node first_edge ''2026-01-01T00:00:00.000Z'' empty_store
          \<lparr> http_method = Some ''GET'', http_path = Some ''/health//'', event_body = None \<rparr>)) = HealthBody"
  by code_simp

section \<open>Cache hit\<close>

text \<open>A \<^verbatim>\<open>/run\<close> request for the example graph with three iterations, and a store that holds
  a result under its fingerprint.\<close>

definition run_body :: string where
  "run_body = ''{\"algorithmId\":\"karger-min-cut\",\"input\":{\"vertices\":[\"A\",\"B\",\"C\",\"D\"],\"edges\":[[\"A\",\"B\"],[\"A\",\"C\"],[\"B\",\"C\"],[\"B\",\"D\"],[\"C\",\"D\"]]},\"options\":{\"iterations\":3}}''"

definition run_payload :: json where
  "run_payload =
     JObj [(''algorithmId'', JStr ''karger-min-cut''),
           (''input'', input_json kargerExample),
           (''options'', JObj [(''iterations'', JNum (Fin 3))])]"

definition stored_result :: AlgorithmRunResult where
  "stored_result =
     \<lparr> outputValue = JObj [(''minCut'', num 2),
                            (''partitions'', JArr [JArr [JStr ''A''], JArr [JStr ''B'', JStr ''C'', JStr ''D'']])],
       summary = ''Estimated minimum cut is 2 based on 3 iterations.'',
       diagnostics = Some [(''iterations'', num 3), (''bestIteration'', num 1),
                           (''optionsUsed'', JObj [(''iterations'', JNum (Fin 7))])] \<rparr>"

definition stored_item :: CacheRecord where
  "stored_item =
     \<lparr> record_id = createCacheKey node ''karger-min-cut'' (input_json kargerExample)
                     (JObj [(''iterations'', JNum (Fin 3))]),
       algorithmId = ''karger-min-cut'', createdAt = ''2026-01-01T00:00:00.000Z'',
       result = stored_result \<rparr>"

definition warm_store :: store where
  "warm_store = \<lparr> items = [record_id stored_item \<mapsto> stored_item], get_fault = None, put_fault = None \<rparr>"

lemma parse_run_body: "parseJson node run_body = Inr run_payload"
  by code_simp

lemma prepare_run_payload:
  "prepare node KargerMinCutAlgorithm (the (nullish (get_prop run_payload ''input'') (Some (JObj []))))
     (the (nullish (get_prop run_payload ''options'') (Some (JObj [])))) =
   Inr (kargerExample, [(''iterations'', JNum (Fin 3))])"
  by code_simp

lemma run_payload_id: "get_prop run_payload ''algorithmId'' = Some (JStr ''karger-min-cut'')"
  by (simp add: run_payload_def)

text \<open>
  Claim C6. When the body parses, names a registered algorithm, input and options validate
  and the store holds a record under the fingerprint, \<^verbatim>\<open>handleRunAlgorithm\<close> answers with
  status 200, the headers of every response and the body \<^verbatim>\<open>{algorithmId, cached: true, result}\<close>,
  where the result is the stored one with \<^verbatim>\<open>diagnostics.optionsUsed\<close> set to the validated
  options of this request: output, summary and every other diagnostics entry are those of
  the stored result, and the store that comes back is the store that went in.
\<close>

theorem cache_hit_returns_stored_result:
  assumes "parseJson h b = Inr payload"
    and "get_prop payload ''algorithmId'' = Some (JStr aid)" and "aid \<noteq> []"
    and "map_of registry aid = Some a"
    and "prepare h a (the (nullish (get_prop payload ''input'') (Some (JObj []))))
                     (the (nullish (get_prop payload ''options'') (Some (JObj [])))) = Inr (input, opts)"
    and "send_Get st (createCacheKey h aid (input_json input) (JObj opts)) = Inr (Some item)"
  shows "\<exists>resp r d. handleRunAlgorithm h rnds now st b = Inr (resp, st) \<and>
           statusCode resp = 200 \<and> headers resp = baseHeaders \<and> body resp = RunBody aid True r \<and>
           outputValue r = outputValue (result item) \<and> summary r = summary (result item) \<and>
           diagnostics r = Some d \<and> map_of d ''optionsUsed'' = Some (JObj opts) \<and>
           (\<forall>k. k \<noteq> ''optionsUsed'' \<longrightarrow>
                map_of d k = map_of (case diagnostics (result item) of None \<Rightarrow> [] | Some d0 \<Rightarrow> d0) k)"
proof -
  let ?r = "augmentResultWithOptions (result item) opts"
  let ?resp = "buildResponse 200 (RunBody aid True ?r)"
  have "handleRunAlgorithm h rnds now st b = Inr (?resp, st)"
    using assms by (simp add: handleRunAlgorithm_def)
  moreover have "statusCode ?resp = 200" "headers ?resp = baseHeaders" "body ?resp = RunBody aid True ?r"
    by (simp_all add: buildResponse_def)
  ultimately show ?thesis
    by (intro exI [of _ ?resp] exI [of _ ?r]
          exI [of _ "obj_set (case diagnostics (result item) of None \<Rightarrow> [] | Some d \<Rightarrow> d)
          ''optionsUsed'' (JObj opts)"])
       (simp add: augment_fields map_of_obj_set)
qed

text \<open>Claim C6, the theorem at that request and store on the reference host.\<close>

theorem cache_hit_returns_stored_result_witness:
  "parseJson node run_body = Inr run_payload \<and>
   get_prop run_payload ''algorithmId'' = Some (JStr ''karger-min-cut'') \<and> ''karger-min-cut'' \<noteq> [] \<and>
   map_of registry ''karger-min-cut'' = Some KargerMinCutAlgorithm \<and>
   prepare node KargerMinCutAlgorithm (the (nullish (get_prop run_payload ''input'') (Some (JObj []))))
     (the (nullish (get_prop run_payload ''options'') (Some (JObj [])))) =
     Inr (kargerExample, [(''iterations'', JNum (Fin 3))]) \<and>
   send_Get warm_store (createCacheKey node ''karger-min-cut'' (input_json kargerExample)
                          (JObj [(''iterations'', JNum (Fin 3))])) = Inr (Some stored_item) \<and>
   (\<exists>resp r d. handleRunAlgorithm node first_edge ''2026-02-02T00:00:00.000Z'' warm_store run_body =
             Inr (resp, warm_store) \<and>
           statusCode resp = 200 \<and> headers resp = baseHeaders \<and>
           body resp = RunBody ''karger-min-cut'' True r \<and>
           outputValue r = outputValue (result stored_item) \<and> summary r = summary (result stored_item) \<and>
           diagnostics r = Some d \<and>
           map_of d ''optionsUsed'' = Some (JObj [(''iterations'', JNum (Fin 3))]) \<and>
           (\<forall>k. k \<noteq> ''optionsUsed'' \<longrightarrow>
                map_of d k = map_of (case diagnostics (result stored_item) of None \<Rightarrow> [] | Some d0 \<Rightarrow> d0) k))"
proof -
  have ne: "''karger-min-cut'' \<noteq> []" by simp
  have hit: "send_Get warm_store (createCacheKey node ''karger-min-cut'' (input_json kargerExample)
                          (JObj [(''iterations'', JNum (Fin 3))])) = Inr (Some stored_item)"
    by (simp add: send_Get_def warm_store_def stored_item_def)
  from cache_hit_returns_stored_result [OF parse_run_body run_payload_id ne registry_karger
      prepare_run_payload hit, of first_edge "''2026-02-02T00:00:00.000Z''"]
    parse_run_body run_payload_id ne registry_karger prepare_run_payload hit
  show ?thesis by blast
qed

section \<open>Failures that are no client errors\<close>








end
